theory Spec2Isabelle
  imports Complex_Main "HOL-Library.Multiset"
begin

section \<open>Numbers and arrays of the source language\<close>

text \<open>
  The library is \<^verbatim>\<open>js/src/inference.ts\<close>; the demo's \<^verbatim>\<open>demo/src/model-runner.ts\<close> calls it.
  The program is TypeScript. MIDI pitches are integers and are modelled as \<open>int\<close>; times,
  durations, scores, fingers and token features are modelled as \<open>real\<close> (the rounding of
  IEEE doubles and of the \<open>Float32Array\<close> that holds the tokens is not modelled, and
  \<open>NaN\<close> is not a value of the model). The one infinite value the program uses, the
  \<open>Infinity\<close> that marks a finger that has not played yet, is a constructor of its own.
  An optional field (\<open>finger?: number\<close>) is an \<open>option\<close>, \<open>None\<close> standing for
  \<open>undefined\<close>.
\<close>

definition js_rem :: "int \<Rightarrow> int \<Rightarrow> int" where
  \<comment> \<open>The operator \<open>%\<close> on integers: the remainder takes the sign of the dividend.\<close>
  "js_rem a b = sgn a * (\<bar>a\<bar> mod \<bar>b\<bar>)"

datatype ftime = Infinity | Secs real

fun ftime_add :: "ftime \<Rightarrow> real \<Rightarrow> ftime" where
  "ftime_add Infinity dt = Infinity"
| "ftime_add (Secs t) dt = Secs (t + dt)"

definition arr_set :: "'a list \<Rightarrow> real \<Rightarrow> 'a \<Rightarrow> 'a list" where
  \<comment> \<open>The assignment \<open>arr[k] = v\<close> on one of the two five-slot arrays of the finger state.
      A key that is one of the indices of the array overwrites that slot. Any other key
      (a fraction, a negative number, an index past the end) creates a property or a new
      element that no code of the program reads: the slots \<open>0..4\<close> keep their values.\<close>
  "arr_set xs k v =
     (if k = real_of_int \<lfloor>k\<rfloor> \<and> 0 \<le> k \<and> k < real (length xs) then xs[nat \<lfloor>k\<rfloor> := v] else xs)"

section \<open>The feature encoder\<close>

definition BLACK_KEY_NOTES :: "int set" where
  "BLACK_KEY_NOTES = {1, 4, 6, 9, 11}"

definition isBlackKey :: "int \<Rightarrow> real" where
  "isBlackKey midi =
     (if midi < 0 then - 1
      else (let keyIndex = midi - 21
            in if js_rem (js_rem keyIndex 12 + 12) 12 \<in> BLACK_KEY_NOTES then 1 else 0))"

definition midiToPitchClass :: "int \<Rightarrow> real" where
  "midiToPitchClass midi =
     (if midi < 0 then - 1
      else (let pitchClass = js_rem (js_rem (midi - 21) 12 + 12) 12
            in real_of_int pitchClass / 11))"

record LookaheadNote =
  midi :: int
  timeUntil :: real
  finger :: "real option"

text \<open>
  \<open>buildTokens\<close> fills a flat array of \<open>26 * 5\<close> numbers, zero at first, by assignments
  in three loops. The two loop bodies are \<open>prevToken\<close> (one previous-use row per finger)
  and \<open>lookaheadToken\<close> (one row per lookahead slot).
\<close>

definition prevToken :: "real \<Rightarrow> int list \<Rightarrow> ftime list \<Rightarrow> nat \<Rightarrow> real list \<Rightarrow> real list" where
  "prevToken refMidiNorm fingerLastMidi fingerLastTime f tokens =
     (let offset = f * 5;
          m = fingerLastMidi ! f;
          tokens = (if m \<ge> 0
                    then (let midiNorm = (real_of_int m - 21) / 87
                          in tokens[offset + 0 := midiNorm - refMidiNorm])
                    else tokens[offset + 0 := - 1]);
          tokens = (case fingerLastTime ! f of
                      Infinity \<Rightarrow> tokens[offset + 1 := 1]
                    | Secs t \<Rightarrow> tokens[offset + 1 := max 0 (min t 10) / 10]);
          tokens = tokens[offset + 2 := (if m \<ge> 0 then isBlackKey m else - 1)];
          tokens = tokens[offset + 3 := 0]
      in tokens)"

definition lookaheadToken :: "real \<Rightarrow> LookaheadNote list \<Rightarrow> nat \<Rightarrow> real list \<Rightarrow> real list" where
  "lookaheadToken refMidiNorm lookaheadNotes j tokens =
     (let tOffset = (6 + j) * 5
      in if j < length lookaheadNotes
         then (let ln = lookaheadNotes ! j;
                   m = LookaheadNote.midi ln;
                   tokens = (if m \<ge> 0
                             then (let midiNorm = (real_of_int m - 21) / 87
                                   in tokens[tOffset + 0 := midiNorm - refMidiNorm])
                             else tokens[tOffset + 0 := - 1]);
                   tokens = (if LookaheadNote.timeUntil ln < 0
                             then tokens[tOffset + 1 := - 1]
                             else tokens[tOffset + 1 := min (LookaheadNote.timeUntil ln / 1000) 10 / 10]);
                   tokens = tokens[tOffset + 2 := (if m \<ge> 0 then isBlackKey m else - 1)];
                   tokens = tokens[tOffset + 3 := 1];
                   tokens = (case LookaheadNote.finger ln of
                               Some fg \<Rightarrow> (if fg \<ge> 0 \<and> fg \<le> 4
                                          then tokens[tOffset + 4 := fg / 4]
                                          else tokens[tOffset + 4 := - 1])
                             | None \<Rightarrow> tokens[tOffset + 4 := - 1])
               in tokens)
         else tokens[tOffset + 0 := - 1, tOffset + 1 := - 1, tOffset + 2 := - 1,
                     tOffset + 3 := - 1, tOffset + 4 := - 1])"

definition buildTokens :: "int \<Rightarrow> int list \<Rightarrow> ftime list \<Rightarrow> LookaheadNote list \<Rightarrow> real list" where
  "buildTokens currentMidi fingerLastMidi fingerLastTime lookaheadNotes =
     (let tokens = replicate (26 * 5) 0;
          tokens = fold (\<lambda>i t. t[i * 5 + 4 := - 1]) [0..<26] tokens;
          refMidiNorm = (real_of_int currentMidi - 21) / 87;
          tokens = fold (prevToken refMidiNorm fingerLastMidi fingerLastTime) [0..<5] tokens;
          curOffset = 5 * 5;
          tokens = tokens[curOffset + 0 := midiToPitchClass currentMidi];
          tokens = tokens[curOffset + 1 := 0];
          tokens = tokens[curOffset + 2 := isBlackKey currentMidi];
          tokens = tokens[curOffset + 3 := 1 / 2];
          tokens = fold (lookaheadToken refMidiNorm lookaheadNotes) [0..<20] tokens
      in tokens)"

definition argmax :: "real list \<Rightarrow> nat" where
  \<comment> \<open>On an empty array the scan does not run and the index \<open>0\<close> is returned.\<close>
  "argmax arr =
     (case arr of
        [] \<Rightarrow> 0
      | a0 # _ \<Rightarrow>
          fst (fold (\<lambda>i (maxIdx, maxVal).
                       if arr ! i > maxVal then (i, arr ! i) else (maxIdx, maxVal))
                    [1..<length arr] (0, a0)))"

section \<open>Notes, sorting and the hand predictor\<close>

text \<open>
  An \<open>InferenceSession\<close> is used through \<open>run\<close> alone: it takes the \<open>26 * 5\<close> token
  values and returns the scores (\<open>logits\<close>), or fails, which is \<open>None\<close>. A session is a
  function of the tokens: it keeps no state between calls.
\<close>

type_synonym session = "real list \<Rightarrow> real list option"

record Models =
  left :: session
  right :: session

record ParsedNote =
  midi :: int
  left :: bool
  time :: real
  duration :: real
  finger :: "real option"
  element :: nat

record Note =
  left :: bool
  "note" :: int
  time :: real
  duration :: "real option"
  velocity :: "real option"
  finger :: "real option"

definition byTimeThenNote :: "Note \<Rightarrow> Note \<Rightarrow> real" where
  \<comment> \<open>The comparator \<open>(a, b) => a.time - b.time || a.note - b.note\<close>.\<close>
  "byTimeThenNote a b =
     (if time a - time b \<noteq> 0 then time a - time b else real_of_int (note a - note b))"

text \<open>
  \<open>Array.prototype.sort\<close> is stable: among the orderings that the comparator allows it
  returns the one that keeps elements the comparator calls equal in their original order.
  Insertion from the right, each element placed before the first element it does not
  exceed, computes that ordering.
\<close>

fun insort_cmp :: "('a \<Rightarrow> 'a \<Rightarrow> real) \<Rightarrow> 'a \<Rightarrow> 'a list \<Rightarrow> 'a list" where
  "insort_cmp c x [] = [x]"
| "insort_cmp c x (y # ys) = (if c x y \<le> 0 then x # y # ys else y # insort_cmp c x ys)"

definition js_sort :: "('a \<Rightarrow> 'a \<Rightarrow> real) \<Rightarrow> 'a list \<Rightarrow> 'a list" where
  "js_sort c xs = foldr (insort_cmp c) xs []"

text \<open>
  The state of one hand's run: the two five-slot arrays and the array of results. The type
  of a result is a parameter: it is \<open>Note\<close> where records are values, and an address where
  records live in a store (see the section on the store). The array \<open>sorted\<close> of the
  source is \<open>sortedN\<close> here and its loop variable \<open>note\<close> is \<open>cur\<close>, as \<open>sorted\<close> and
  \<open>note\<close> are taken.
\<close>

record 'r HandState =
  fingerLastMidi :: "int list"
  fingerLastTime :: "ftime list"
  results :: "'r list"

definition initState :: "'r HandState" where
  "initState = \<lparr>fingerLastMidi = [- 1, - 1, - 1, - 1, - 1],
                fingerLastTime = [Infinity, Infinity, Infinity, Infinity, Infinity],
                results = []\<rparr>"

definition buildLookahead :: "Note list \<Rightarrow> nat \<Rightarrow> LookaheadNote list" where
  "buildLookahead sortedN i =
     (let currentTime = time (sortedN ! i);
          endk = min (i + 21) (length sortedN)
      in fold (\<lambda>k lookahead.
                 (let futureNote = sortedN ! k;
                      tu = time futureNote - currentTime;
                      futureFinger = finger futureNote;
                      fingerHint = (case futureFinger of
                                      None \<Rightarrow> None
                                    | Some ff \<Rightarrow> (if ff \<ge> 1 \<and> ff \<le> 5 then Some (ff - 1) else None))
                  in lookahead @ [\<lparr>LookaheadNote.midi = note futureNote,
                                   LookaheadNote.timeUntil = tu,
                                   LookaheadNote.finger = fingerHint\<rparr>]))
              [i + 1..<endk] [])"

definition ageFingers :: "real \<Rightarrow> ftime list \<Rightarrow> ftime list" where
  \<comment> \<open>The loop \<open>for f in 0..4: if (fingerLastTime[f] !== Infinity) fingerLastTime[f] += dt\<close>.\<close>
  "ageFingers dt lastTimes =
     fold (\<lambda>f t. if t ! f \<noteq> Infinity then t[f := ftime_add (t ! f) dt] else t) [0..<5] lastTimes"

definition resolveNote :: "Note \<Rightarrow> nat \<Rightarrow> real \<times> Note" where
  \<comment> \<open>Lines 189 to 199, from the copy \<open>{...note}\<close> to the choice of the finger: the chosen
      finger and the record pushed onto \<open>results\<close>.\<close>
  "resolveNote cur pred =
     (let result = cur;
          existing = finger cur
      in case existing of
           Some e \<Rightarrow> (if e \<ge> 1 \<and> e \<le> 5 then (e, result)
                      else (let fg = real pred + 1 in (fg, result\<lparr>finger := Some fg\<rparr>)))
         | None \<Rightarrow> (let fg = real pred + 1 in (fg, result\<lparr>finger := Some fg\<rparr>)))"

definition updateState :: "Note list \<Rightarrow> nat \<Rightarrow> 'r HandState \<Rightarrow> real \<times> 'r \<Rightarrow> 'r HandState" where
  \<comment> \<open>Lines 201 to 217: push the result, update the chosen finger, age all fingers.\<close>
  "updateState sortedN i s fr =
     (let cur = sortedN ! i;
          currentTime = time cur;
          currentMidi = note cur;
          fg = fst fr;
          res = results s @ [snd fr];
          fingerIdx = fg - 1;
          flm = arr_set (fingerLastMidi s) fingerIdx currentMidi;
          durationSec = (case duration cur of None \<Rightarrow> 100 | Some d \<Rightarrow> d) / 1000;
          flt = arr_set (fingerLastTime s) fingerIdx (Secs (- durationSec));
          flt = (if i + 1 < length sortedN
                 then (let dt = (time (sortedN ! (i + 1)) - currentTime) / 1000 in ageFingers dt flt)
                 else flt)
      in \<lparr>fingerLastMidi = flm, fingerLastTime = flt, results = res\<rparr>)"

definition tokensAt :: "Note list \<Rightarrow> nat \<Rightarrow> 'r HandState \<Rightarrow> real list" where
  \<comment> \<open>Lines 158 to 183: the token matrix of note \<open>i\<close> under the current finger state.\<close>
  "tokensAt sortedN i s =
     (let cur = sortedN ! i;
          currentMidi = note cur;
          lookahead = buildLookahead sortedN i
      in buildTokens currentMidi (fingerLastMidi s) (fingerLastTime s) lookahead)"

definition handStep :: "session \<Rightarrow> Note list \<Rightarrow> nat \<Rightarrow> Note HandState \<Rightarrow> Note HandState option" where
  \<comment> \<open>One iteration of the loop over \<open>sorted\<close>. The model is run on every note; a failure
      of the model (\<open>None\<close>) ends the run.\<close>
  "handStep model sortedN i s =
     (let tokenData = tokensAt sortedN i s
      in case model tokenData of
           None \<Rightarrow> None
         | Some logits \<Rightarrow>
             (let pred = argmax logits
              in Some (updateState sortedN i s (resolveNote (sortedN ! i) pred))))"

definition handLoop :: "session \<Rightarrow> Note list \<Rightarrow> nat \<Rightarrow> Note HandState option" where
  \<comment> \<open>The first \<open>n\<close> iterations of the loop, from the initial finger state.\<close>
  "handLoop model sortedN n =
     fold (\<lambda>i acc. Option.bind acc (handStep model sortedN i)) [0..<n] (Some initState)"

definition sortedHand :: "Note list \<Rightarrow> bool \<Rightarrow> Note list" where
  "sortedHand notes isLeft = js_sort byTimeThenNote (filter (\<lambda>n. left n = isLeft) notes)"

definition predictHandFingerings :: "Note list \<Rightarrow> bool \<Rightarrow> session \<Rightarrow> Note list option" where
  "predictHandFingerings notes isLeft model =
     (let handNotes = filter (\<lambda>n. left n = isLeft) notes
      in if length handNotes = 0 then Some []
         else (let sortedN = js_sort byTimeThenNote handNotes
               in map_option results (handLoop model sortedN (length sortedN))))"

definition predictFingerings :: "Note list \<Rightarrow> Models \<Rightarrow> Note list option" where
  \<comment> \<open>The two sessions are given; loading the bundled models when they are omitted is not
      part of the model.\<close>
  "predictFingerings notes m =
     (case predictHandFingerings notes True (Models.left m) of
        None \<Rightarrow> None
      | Some leftResults \<Rightarrow>
          (case predictHandFingerings notes False (Models.right m) of
             None \<Rightarrow> None
           | Some rightResults \<Rightarrow>
               (let allResults = leftResults @ rightResults
                in Some (js_sort byTimeThenNote allResults))))"

subsection \<open>The demo's runner\<close>

definition toInputNotes :: "ParsedNote list \<Rightarrow> Note list" where
  "toInputNotes parsedNotes =
     map (\<lambda>n. \<lparr>Note.left = ParsedNote.left n, note = ParsedNote.midi n, time = ParsedNote.time n,
               duration = Some (ParsedNote.duration n), velocity = None,
               finger = ParsedNote.finger n\<rparr>) parsedNotes"

definition runHandsRightFirst :: "Note list \<Rightarrow> Models \<Rightarrow> Note list option" where
  \<comment> \<open>The body of \<open>runPrediction\<close> between the conversion of its input and the final
      projection: the right hand runs first, the left hand second, and the results are
      concatenated left before right and sorted.\<close>
  "runHandsRightFirst inputNotes models =
     (case predictHandFingerings inputNotes False (Models.right models) of
        None \<Rightarrow> None
      | Some rightResults \<Rightarrow>
          (case predictHandFingerings inputNotes True (Models.left models) of
             None \<Rightarrow> None
           | Some leftResults \<Rightarrow>
               (let allResults = leftResults @ rightResults
                in Some (js_sort byTimeThenNote allResults))))"

definition runPrediction :: "ParsedNote list \<Rightarrow> Models \<Rightarrow> real list option" where
  "runPrediction parsedNotes models =
     map_option (map (\<lambda>r. the (finger r))) (runHandsRightFirst (toInputNotes parsedNotes) models)"

subsection \<open>The hand predictor that does not run the model on fixed notes\<close>

text \<open>
  The variant the specification allows: a note that carries a finger from 1 to 5 is
  resolved without a call of the model; every other note is handled as in \<open>handStep\<close>.
\<close>

definition handStep_skip :: "session \<Rightarrow> Note list \<Rightarrow> nat \<Rightarrow> Note HandState \<Rightarrow> Note HandState option" where
  "handStep_skip model sortedN i s =
     (let cur = sortedN ! i;
          predicted = (case model (tokensAt sortedN i s) of
                         None \<Rightarrow> None
                       | Some logits \<Rightarrow>
                           (let fg = real (argmax logits) + 1
                            in Some (updateState sortedN i s (fg, cur\<lparr>finger := Some fg\<rparr>))))
      in case finger cur of
           Some e \<Rightarrow> (if e \<ge> 1 \<and> e \<le> 5 then Some (updateState sortedN i s (e, cur)) else predicted)
         | None \<Rightarrow> predicted)"

definition handLoop_skip :: "session \<Rightarrow> Note list \<Rightarrow> nat \<Rightarrow> Note HandState option" where
  "handLoop_skip model sortedN n =
     fold (\<lambda>i acc. Option.bind acc (handStep_skip model sortedN i)) [0..<n] (Some initState)"

definition predictHandFingerings_skip :: "Note list \<Rightarrow> bool \<Rightarrow> session \<Rightarrow> Note list option" where
  "predictHandFingerings_skip notes isLeft model =
     (let handNotes = filter (\<lambda>n. Note.left n = isLeft) notes
      in if length handNotes = 0 then Some []
         else (let sortedN = js_sort byTimeThenNote handNotes
               in map_option results (handLoop_skip model sortedN (length sortedN))))"

section \<open>Note records in a store\<close>

text \<open>
  In the program a note is an object, and the arrays \<open>notes\<close>, \<open>handNotes\<close>, \<open>sorted\<close> and
  \<open>results\<close> hold references to objects. To speak of the objects of the caller, the hand
  predictor and the coordinator are given a second time over a store: a list of records,
  an address being an index into it. The copy \<open>{...note}\<close> appends a record to the store
  and yields its address; \<open>result.finger = finger\<close> writes the record at that address;
  every read of a field of a note goes through the store as it is at that moment.
  \<open>filter\<close>, the spread \<open>[...xs]\<close> and \<open>sort\<close> build and reorder arrays of addresses and
  touch no record.
\<close>

type_synonym heap = "Note list"

definition deref :: "heap \<Rightarrow> nat list \<Rightarrow> Note list" where
  "deref h refs = map ((!) h) refs"

definition byTimeThenNote_h :: "heap \<Rightarrow> nat \<Rightarrow> nat \<Rightarrow> real" where
  "byTimeThenNote_h h a b = byTimeThenNote (h ! a) (h ! b)"

definition resolveNote_h :: "heap \<Rightarrow> nat \<Rightarrow> nat \<Rightarrow> heap \<times> real \<times> nat" where
  "resolveNote_h h a pred =
     (let result = length h;
          h = h @ [h ! a];
          existing = finger (h ! a)
      in case existing of
           Some e \<Rightarrow> (if e \<ge> 1 \<and> e \<le> 5 then (h, e, result)
                      else (let fg = real pred + 1
                            in (h[result := (h ! result)\<lparr>finger := Some fg\<rparr>], fg, result)))
         | None \<Rightarrow> (let fg = real pred + 1
                     in (h[result := (h ! result)\<lparr>finger := Some fg\<rparr>], fg, result)))"

definition handStep_h ::
    "session \<Rightarrow> nat list \<Rightarrow> nat \<Rightarrow> heap \<times> nat HandState \<Rightarrow> (heap \<times> nat HandState) option" where
  "handStep_h model sortedR i hs =
     (let h = fst hs;
          s = snd hs;
          tokenData = tokensAt (deref h sortedR) i s
      in case model tokenData of
           None \<Rightarrow> None
         | Some logits \<Rightarrow>
             (let pred = argmax logits;
                  hfr = resolveNote_h h (sortedR ! i) pred;
                  h = fst hfr
              in Some (h, updateState (deref h sortedR) i s (snd hfr))))"

definition handLoop_h :: "session \<Rightarrow> nat list \<Rightarrow> nat \<Rightarrow> heap \<Rightarrow> (heap \<times> nat HandState) option" where
  "handLoop_h model sortedR n h =
     fold (\<lambda>i acc. Option.bind acc (handStep_h model sortedR i)) [0..<n] (Some (h, initState))"

definition predictHandFingerings_h ::
    "heap \<Rightarrow> nat list \<Rightarrow> bool \<Rightarrow> session \<Rightarrow> (heap \<times> nat list) option" where
  "predictHandFingerings_h h notes isLeft model =
     (let handNotes = filter (\<lambda>a. Note.left (h ! a) = isLeft) notes
      in if length handNotes = 0 then Some (h, [])
         else (let sortedR = js_sort (byTimeThenNote_h h) handNotes
               in map_option (\<lambda>hs. (fst hs, results (snd hs)))
                    (handLoop_h model sortedR (length sortedR) h)))"

definition predictFingerings_h :: "heap \<Rightarrow> nat list \<Rightarrow> Models \<Rightarrow> (heap \<times> nat list) option" where
  "predictFingerings_h h notes m =
     (case predictHandFingerings_h h notes True (Models.left m) of
        None \<Rightarrow> None
      | Some (h, leftResults) \<Rightarrow>
          (case predictHandFingerings_h h notes False (Models.right m) of
             None \<Rightarrow> None
           | Some (h, rightResults) \<Rightarrow>
               (let allResults = leftResults @ rightResults
                in Some (h, js_sort (byTimeThenNote_h h) allResults))))"

definition runHandsRightFirst_h :: "heap \<Rightarrow> nat list \<Rightarrow> Models \<Rightarrow> (heap \<times> nat list) option" where
  "runHandsRightFirst_h h inputNotes models =
     (case predictHandFingerings_h h inputNotes False (Models.right models) of
        None \<Rightarrow> None
      | Some (h, rightResults) \<Rightarrow>
          (case predictHandFingerings_h h inputNotes True (Models.left models) of
             None \<Rightarrow> None
           | Some (h, leftResults) \<Rightarrow>
               (let allResults = leftResults @ rightResults
                in Some (h, js_sort (byTimeThenNote_h h) allResults))))"

section \<open>Vocabulary of the statements\<close>

definition hintInit :: "real list" where
  \<comment> \<open>The token array of \<open>buildTokens\<close> after its first loop.\<close>
  "hintInit = fold (\<lambda>i t. t[i * 5 + 4 := - 1]) [0..<26] (replicate (26 * 5) 0)"


definition timeNoteLe :: "Note \<Rightarrow> Note \<Rightarrow> bool" where
  \<comment> \<open>Ascending order by onset time, then by pitch.\<close>
  "timeNoteLe a b \<longleftrightarrow> time a < time b \<or> (time a = time b \<and> note a \<le> note b)"

definition hasFixedFinger :: "Note \<Rightarrow> bool" where
  \<comment> \<open>The note carries a finger between 1 and 5.\<close>
  "hasFixedFinger n = (case finger n of None \<Rightarrow> False | Some e \<Rightarrow> 1 \<le> e \<and> e \<le> 5)"

definition sameButFinger :: "Note \<Rightarrow> Note \<Rightarrow> bool" where
  \<comment> \<open>The two records agree on every field other than \<open>finger\<close>.\<close>
  "sameButFinger n r \<longleftrightarrow>
     Note.left r = Note.left n \<and> note r = note n \<and> time r = time n \<and>
     duration r = duration n \<and> velocity r = velocity n"

definition scanStep :: "real list \<Rightarrow> nat \<Rightarrow> nat \<times> real \<Rightarrow> nat \<times> real" where
  \<comment> \<open>The body of the scan in \<open>argmax\<close>.\<close>
  "scanStep arr = (\<lambda>i (maxIdx, maxVal). if arr ! i > maxVal then (i, arr ! i) else (maxIdx, maxVal))"

definition resolvedFrom :: "Note \<Rightarrow> Note \<Rightarrow> bool" where
  \<comment> \<open>\<open>r\<close> is the note \<open>n\<close> with its finger resolved: a fixed note is returned as it is.\<close>
  "resolvedFrom n r \<longleftrightarrow> sameButFinger n r \<and> (hasFixedFinger n \<longrightarrow> r = n) \<and> finger r \<noteq> None"

definition simulates :: "heap \<Rightarrow> heap \<times> nat HandState \<Rightarrow> Note HandState \<Rightarrow> bool" where
  \<comment> \<open>A state of the run over the store, started from the store \<open>h0\<close>, against the state of
      the run over values: the old records are untouched, the results are the addresses of
      the records added since, and those records are the results of the run over values.\<close>
  "simulates h0 hs sp \<longleftrightarrow>
     take (length h0) (fst hs) = h0 \<and> length h0 \<le> length (fst hs) \<and>
     fingerLastMidi (snd hs) = fingerLastMidi sp \<and>
     fingerLastTime (snd hs) = fingerLastTime sp \<and>
     results (snd hs) = [length h0..<length (fst hs)] \<and>
     drop (length h0) (fst hs) = results sp"

definition returned :: "(heap \<times> nat list) option \<Rightarrow> Note list option" where
  \<comment> \<open>The records that a run over the store returns, read from its final store.\<close>
  "returned r = map_option (\<lambda>hr. deref (fst hr) (snd hr)) r"

section \<open>Example inputs\<close>

text \<open>The mock session and several of the inputs are those of the repository's tests.\<close>

definition createMockSession :: "nat \<Rightarrow> session" where
  \<comment> \<open>The tests' mock session: score 1 for one finger index, 0 for the others.\<close>
  "createMockSession fingerIndex = (\<lambda>tokens. Some ((replicate 5 0)[fingerIndex := 1]))"

definition mkNote :: "bool \<Rightarrow> int \<Rightarrow> real \<Rightarrow> Note" where
  "mkNote l n t =
     \<lparr>Note.left = l, note = n, time = t, duration = Some 500, velocity = None, finger = None\<rparr>"

definition scrambled :: "Note list" where
  \<comment> \<open>The input of the test "returns results sorted by time then note".\<close>
  "scrambled = [mkNote False 72 1000, mkNote True 40 0, mkNote False 60 0, mkNote True 48 1000]"

definition mocks :: Models where
  "mocks = \<lparr>Models.left = createMockSession 2, right = createMockSession 2\<rparr>"

definition fixedNotes :: "Note list" where
  \<comment> \<open>The input of the test "preserves fixed fingerings".\<close>
  "fixedNotes = [(mkNote False 60 0)\<lparr>finger := Some 3\<rparr>, mkNote False 62 500,
                 (mkNote False 64 1000)\<lparr>finger := Some 5\<rparr>]"

definition fixedModels :: Models where
  "fixedModels = \<lparr>Models.left = createMockSession 2, right = createMockSession 0\<rparr>"

definition fixedOut :: "Note list" where
  "fixedOut = [(mkNote False 60 0)\<lparr>finger := Some 3\<rparr>, (mkNote False 62 500)\<lparr>finger := Some 1\<rparr>,
               (mkNote False 64 1000)\<lparr>finger := Some 5\<rparr>]"

definition scrambledOut :: "Note list" where
  "scrambledOut =
     [(mkNote True 40 0)\<lparr>finger := Some 3\<rparr>, (mkNote False 60 0)\<lparr>finger := Some 3\<rparr>,
      (mkNote True 48 1000)\<lparr>finger := Some 3\<rparr>, (mkNote False 72 1000)\<lparr>finger := Some 3\<rparr>]"

definition tieSession :: session where
  \<comment> \<open>A session whose highest score occurs at the indices 1, 2 and 4.\<close>
  "tieSession = (\<lambda>tokens. Some [0, 3, 3, 1, 3])"

definition failingSession :: session where
  \<comment> \<open>A session whose \<open>run\<close> always fails.\<close>
  "failingSession = (\<lambda>tokens. None)"

definition halfFingerNotes :: "Note list" where
  "halfFingerNotes = [mkNote False 62 500, (mkNote False 60 0)\<lparr>finger := Some (5 / 2)\<rparr>]"

definition storeTwo :: heap where
  "storeTwo = [mkNote False 62 500, (mkNote True 48 0)\<lparr>finger := Some 4\<rparr>]"

definition storeTwoAfter :: heap where
  "storeTwoAfter = storeTwo @ [(mkNote True 48 0)\<lparr>finger := Some 4\<rparr>, (mkNote False 62 500)\<lparr>finger := Some 3\<rparr>]"

section \<open>Example inputs of the encoder\<close>

definition lowPitchLookahead :: "LookaheadNote list" where
  "lowPitchLookahead =
     [\<lparr>LookaheadNote.midi = 10, timeUntil = 300, finger = None\<rparr>,
      \<lparr>LookaheadNote.midi = 110, timeUntil = 600, finger = None\<rparr>]"

definition noneMidi :: "int list" where
  "noneMidi = [- 1, - 1, - 1, - 1, - 1]"

definition neverUsed :: "ftime list" where
  "neverUsed = [Infinity, Infinity, Infinity, Infinity, Infinity]"

definition usedMidi :: "int list" where
  "usedMidi = [- 1, 62, - 1, - 1, - 1]"

definition usedTime :: "ftime list" where
  "usedTime = [Infinity, Secs 0, Infinity, Infinity, Infinity]"

definition nextE :: "LookaheadNote list" where
  "nextE = [\<lparr>LookaheadNote.midi = 64, timeUntil = 300, finger = None\<rparr>]"

section \<open>Sorting\<close>

lemma byTimeThenNote_le: "byTimeThenNote a b \<le> 0 \<longleftrightarrow> timeNoteLe a b"
  by (auto simp: byTimeThenNote_def timeNoteLe_def)

lemma timeNoteLe_total: "timeNoteLe a b \<or> timeNoteLe b a"
  by (auto simp: timeNoteLe_def)

lemma timeNoteLe_trans: "timeNoteLe a b \<Longrightarrow> timeNoteLe b c \<Longrightarrow> timeNoteLe a c"
  by (auto simp: timeNoteLe_def)

lemma mset_insort_cmp: "mset (insort_cmp c x ys) = add_mset x (mset ys)"
  by (induction ys) auto

lemma mset_js_sort: "mset (js_sort c xs) = mset xs"
  by (induction xs) (auto simp: js_sort_def mset_insort_cmp)

lemma set_insort_cmp: "set (insort_cmp c x ys) = insert x (set ys)"
  by (induction ys) auto

lemma length_js_sort: "length (js_sort c xs) = length xs"
  using mset_js_sort [of c xs] by (metis size_mset)

lemma set_js_sort: "set (js_sort c xs) = set xs"
  using mset_js_sort [of c xs] by (metis set_mset_mset)

lemma sorted_insort_cmp:
  "sorted_wrt timeNoteLe ys \<Longrightarrow> sorted_wrt timeNoteLe (insort_cmp byTimeThenNote x ys)"
proof (induction ys)
  case Nil
  then show ?case by simp
next
  case (Cons y ys)
  show ?case
  proof (cases "byTimeThenNote x y \<le> 0")
    case True
    then have "timeNoteLe x y" by (simp add: byTimeThenNote_le)
    with Cons.prems show ?thesis using True
      by (auto intro: timeNoteLe_trans)
  next
    case False
    then have "timeNoteLe y x" using timeNoteLe_total [of x y] by (simp add: byTimeThenNote_le)
    with Cons show ?thesis using False
      by (auto simp: set_insort_cmp)
  qed
qed

lemma sorted_js_sort: "sorted_wrt timeNoteLe (js_sort byTimeThenNote xs)"
  by (induction xs) (auto simp: js_sort_def sorted_insort_cmp)

lemma js_sort_Cons: "js_sort c (x # xs) = insort_cmp c x (js_sort c xs)"
  by (simp add: js_sort_def)

lemma insort_cmp_all2:
  assumes "list_all2 R xs ys" "R x y"
    and "\<And>a b. a \<in> set xs \<Longrightarrow> R a b \<Longrightarrow> (c x a \<le> 0) = (c y b \<le> 0)"
  shows "list_all2 R (insort_cmp c x xs) (insort_cmp c y ys)"
  using assms
proof (induction xs ys rule: list_all2_induct)
  case Nil
  then show ?case by simp
next
  case (Cons a xs b ys)
  then show ?case by auto
qed

lemma js_sort_all2:
  assumes "list_all2 R xs ys"
    and "\<And>x y a b. R x y \<Longrightarrow> R a b \<Longrightarrow> (c x a \<le> 0) = (c y b \<le> 0)"
  shows "list_all2 R (js_sort c xs) (js_sort c ys)"
  using assms(1)
proof (induction xs ys rule: list_all2_induct)
  case Nil
  then show ?case by (simp add: js_sort_def)
next
  case (Cons x xs y ys)
  then show ?case
    by (simp add: js_sort_Cons insort_cmp_all2 assms(2))
qed

section \<open>The loop of the hand predictor\<close>

lemma handLoop_0: "handLoop model sortedN 0 = Some initState"
  by (simp add: handLoop_def)

lemma handLoop_Suc:
  "handLoop model sortedN (Suc n) = Option.bind (handLoop model sortedN n) (handStep model sortedN n)"
  by (simp add: handLoop_def)

lemma handLoop_Suc_Some:
  assumes "handLoop model sortedN (Suc n) = Some s'"
  obtains s logits where "handLoop model sortedN n = Some s"
    and "model (tokensAt sortedN n s) = Some logits"
    and "s' = updateState sortedN n s (resolveNote (sortedN ! n) (argmax logits))"
  using assms
  by (auto simp: handLoop_Suc handStep_def Let_def bind_eq_Some_conv split: option.splits)

lemma handLoop_prefix:
  "handLoop model sortedN n = Some s \<Longrightarrow> k \<le> n \<Longrightarrow> \<exists>sk. handLoop model sortedN k = Some sk"
proof (induction n arbitrary: s)
  case 0
  then show ?case by simp
next
  case (Suc n)
  show ?case
  proof (cases "k = Suc n")
    case True
    with Suc.prems show ?thesis by simp
  next
    case False
    with Suc.prems have "k \<le> n" by simp
    moreover obtain s0 where "handLoop model sortedN n = Some s0"
      using Suc.prems(1) by (auto elim: handLoop_Suc_Some)
    ultimately show ?thesis using Suc.IH by blast
  qed
qed

lemma results_updateState: "results (updateState sortedN i s fr) = results s @ [snd fr]"
  by (simp add: updateState_def Let_def)

lemma length_arr_set: "length (arr_set xs k v) = length xs"
  by (simp add: arr_set_def)

lemma length_ageFingers: "length (ageFingers dt ts) = length ts"
proof -
  have "length (fold (\<lambda>f t. if t ! f \<noteq> Infinity then t[f := ftime_add (t ! f) dt] else t) fs ts) = length ts" for fs
    by (induction fs arbitrary: ts) auto
  then show ?thesis by (simp add: ageFingers_def)
qed

lemma length_updateState:
  "length (fingerLastMidi (updateState sortedN i s fr)) = length (fingerLastMidi s)"
  "length (fingerLastTime (updateState sortedN i s fr)) = length (fingerLastTime s)"
  by (simp_all add: updateState_def Let_def length_arr_set length_ageFingers)

lemma handLoop_lengths:
  "handLoop model sortedN n = Some s \<Longrightarrow>
     length (results s) = n \<and> length (fingerLastMidi s) = 5 \<and> length (fingerLastTime s) = 5"
proof (induction n arbitrary: s)
  case 0
  then show ?case by (auto simp add: handLoop_0 initState_def)
next
  case (Suc n)
  from Suc.prems obtain s0 logits where s0: "handLoop model sortedN n = Some s0"
    and s: "s = updateState sortedN n s0 (resolveNote (sortedN ! n) (argmax logits))"
    by (auto elim: handLoop_Suc_Some)
  from Suc.IH [OF s0] show ?case
    by (simp add: s results_updateState length_updateState)
qed

lemma handLoop_results_nth:
  "handLoop model sortedN n = Some s \<Longrightarrow> i < n \<Longrightarrow>
     \<exists>si logits. handLoop model sortedN i = Some si \<and> model (tokensAt sortedN i si) = Some logits
        \<and> results s ! i = snd (resolveNote (sortedN ! i) (argmax logits))"
proof (induction n arbitrary: s)
  case 0
  then show ?case by simp
next
  case (Suc n)
  from Suc.prems(1) obtain s0 logits where s0: "handLoop model sortedN n = Some s0"
    and lg: "model (tokensAt sortedN n s0) = Some logits"
    and s: "s = updateState sortedN n s0 (resolveNote (sortedN ! n) (argmax logits))"
    by (auto elim: handLoop_Suc_Some)
  have len: "length (results s0) = n" using handLoop_lengths [OF s0] by simp
  show ?case
  proof (cases "i = n")
    case True
    then show ?thesis using s0 lg len by (auto simp: s results_updateState)
  next
    case False
    with Suc.prems(2) have "i < n" by simp
    from Suc.IH [OF s0 this] show ?thesis
      using \<open>i < n\<close> len by (auto simp: s results_updateState nth_append)
  qed
qed

lemma resolveNote_fixed: "hasFixedFinger n \<Longrightarrow> resolveNote n p = (the (finger n), n)"
  by (auto simp: resolveNote_def hasFixedFinger_def split: option.splits)

lemma resolveNote_free:
  "\<not> hasFixedFinger n \<Longrightarrow> resolveNote n p = (real p + 1, n\<lparr>finger := Some (real p + 1)\<rparr>)"
  by (auto simp: resolveNote_def hasFixedFinger_def Let_def split: option.splits)

lemma resolveNote_same: "sameButFinger n (snd (resolveNote n p))"
  by (cases "hasFixedFinger n") (simp_all add: resolveNote_fixed resolveNote_free sameButFinger_def)

lemma resolveNote_finger: "finger (snd (resolveNote n p)) = Some (fst (resolveNote n p))"
  by (cases "hasFixedFinger n")
     (auto simp add: resolveNote_fixed resolveNote_free hasFixedFinger_def split: option.splits)

lemma byTimeThenNote_same:
  "sameButFinger x y \<Longrightarrow> sameButFinger a b \<Longrightarrow> byTimeThenNote x a = byTimeThenNote y b"
  by (simp add: sameButFinger_def byTimeThenNote_def)

lemma predictHand_Some:
  assumes "predictHandFingerings notes isLeft model = Some rs"
  shows "\<exists>s. handLoop model (sortedHand notes isLeft) (length (sortedHand notes isLeft)) = Some s
            \<and> rs = results s"
proof (cases "filter (\<lambda>n. Note.left n = isLeft) notes = []")
  case True
  with assms show ?thesis
    by (simp add: predictHandFingerings_def sortedHand_def js_sort_def handLoop_0 initState_def)
next
  case False
  with assms show ?thesis
    by (auto simp: predictHandFingerings_def sortedHand_def Let_def)
qed

lemma predictHand_nth:
  assumes "predictHandFingerings notes isLeft model = Some rs"
  shows "length rs = length (sortedHand notes isLeft)"
    and "i < length rs \<Longrightarrow>
       \<exists>si logits. handLoop model (sortedHand notes isLeft) i = Some si
         \<and> model (tokensAt (sortedHand notes isLeft) i si) = Some logits
         \<and> rs ! i = snd (resolveNote (sortedHand notes isLeft ! i) (argmax logits))"
proof -
  from predictHand_Some [OF assms] obtain s
    where s: "handLoop model (sortedHand notes isLeft) (length (sortedHand notes isLeft)) = Some s"
      and rs: "rs = results s" by blast
  show len: "length rs = length (sortedHand notes isLeft)"
    using handLoop_lengths [OF s] rs by simp
  show "\<exists>si logits. handLoop model (sortedHand notes isLeft) i = Some si
         \<and> model (tokensAt (sortedHand notes isLeft) i si) = Some logits
         \<and> rs ! i = snd (resolveNote (sortedHand notes isLeft ! i) (argmax logits))"
    if "i < length rs"
    using handLoop_results_nth [OF s, of i] that len rs by simp
qed

section \<open>The rows of the token matrix\<close>

lemma fold_upt_Suc: "fold step [0..<Suc n] t = step n (fold step [0..<n] t)"
  by simp

lemma fold_blocks_length:
  assumes "\<And>j t. length (step j t) = length (t::'a list)"
  shows "length (fold step [0..<n] t) = length t"
  by (induction n) (simp_all add: assms)

lemma fold_blocks_outside:
  assumes "\<And>j t i. i < base + j * 5 \<or> base + j * 5 + 5 \<le> i \<Longrightarrow> step j t ! i = (t::'a list) ! i"
    and "idx < base \<or> base + n * 5 \<le> idx"
  shows "fold step [0..<n] t ! idx = t ! idx"
  using assms(2)
proof (induction n)
  case 0
  then show ?case by simp
next
  case (Suc n)
  then have a: "idx < base + n * 5 \<or> base + n * 5 + 5 \<le> idx" and b: "idx < base \<or> base + n * 5 \<le> idx"
    by auto
  show ?case using Suc.IH [OF b] assms(1) [OF a] by simp
qed

lemma fold_blocks_inside:
  assumes "\<And>j t i. i < base + j * 5 \<or> base + j * 5 + 5 \<le> i \<Longrightarrow> step j t ! i = (t::'a list) ! i"
    and len: "\<And>j t. length (step j t) = length t"
    and "j < n" "c < 5"
    and v: "\<And>t'. length t' = length t \<Longrightarrow> step j t' ! (base + j * 5 + c) = v"
  shows "fold step [0..<n] t ! (base + j * 5 + c) = v"
  using assms(3)
proof (induction n)
  case 0
  then show ?case by simp
next
  case (Suc n)
  show ?case
  proof (cases "j = n")
    case True
    have "length (fold step [0..<n] t) = length t"
      by (rule fold_blocks_length) (rule len)
    from v [OF this] show ?thesis using True by simp
  next
    case False
    with Suc.prems have jn: "j < n" by simp
    with \<open>c < 5\<close> have "base + j * 5 + c < base + n * 5 \<or> base + n * 5 + 5 \<le> base + j * 5 + c"
      by auto
    from assms(1) [OF this] Suc.IH [OF jn] show ?thesis by simp
  qed
qed

lemma length_prevToken: "length (prevToken r lm lt f t) = length t"
  by (simp add: prevToken_def Let_def split: ftime.splits)

lemma prevToken_outside:
  "i < 0 + f * 5 \<or> 0 + f * 5 + 5 \<le> i \<Longrightarrow> prevToken r lm lt f t ! i = t ! i"
  by (auto simp: prevToken_def Let_def split: ftime.splits)

lemma prevToken_col0:
  "f * 5 + 3 < length t \<Longrightarrow>
   prevToken r lm lt f t ! (0 + f * 5 + 0) =
     (if lm ! f \<ge> 0 then (real_of_int (lm ! f) - 21) / 87 - r else - 1)"
  by (simp add: prevToken_def Let_def split: ftime.splits)

lemma prevToken_col2:
  "f * 5 + 3 < length t \<Longrightarrow>
   prevToken r lm lt f t ! (0 + f * 5 + 2) = (if lm ! f \<ge> 0 then isBlackKey (lm ! f) else - 1)"
  by (simp add: prevToken_def Let_def split: ftime.splits)

lemma length_lookaheadToken: "length (lookaheadToken r ls j t) = length t"
  by (simp add: lookaheadToken_def Let_def split: option.splits)

lemma lookaheadToken_outside:
  "i < 30 + j * 5 \<or> 30 + j * 5 + 5 \<le> i \<Longrightarrow> lookaheadToken r ls j t ! i = t ! i"
  by (auto simp: lookaheadToken_def Let_def split: option.splits)

lemma lookaheadToken_col0:
  "30 + j * 5 + 4 < length t \<Longrightarrow>
   lookaheadToken r ls j t ! (30 + j * 5 + 0) =
     (if j < length ls \<and> LookaheadNote.midi (ls ! j) \<ge> 0
      then (real_of_int (LookaheadNote.midi (ls ! j)) - 21) / 87 - r else - 1)"
  by (simp add: lookaheadToken_def Let_def split: option.splits)

lemma lookaheadToken_col2:
  "30 + j * 5 + 4 < length t \<Longrightarrow>
   lookaheadToken r ls j t ! (30 + j * 5 + 2) =
     (if j < length ls \<and> LookaheadNote.midi (ls ! j) \<ge> 0
      then isBlackKey (LookaheadNote.midi (ls ! j)) else - 1)"
  by (simp add: lookaheadToken_def Let_def split: option.splits)

lemma length_hintInit: "length hintInit = 130"
  unfolding hintInit_def by (subst fold_blocks_length) simp_all

lemma buildTokens_unfold:
  "buildTokens c lm lt ls =
     fold (lookaheadToken ((real_of_int c - 21) / 87) ls) [0..<20]
       ((fold (prevToken ((real_of_int c - 21) / 87) lm lt) [0..<5] hintInit)
          [25 := midiToPitchClass c, 26 := 0, 27 := isBlackKey c, 28 := 1 / 2])"
  by (simp add: buildTokens_def hintInit_def Let_def)

lemma length_prevFold:
  "length (fold (prevToken r lm lt) [0..<n] t) = length t"
  by (rule fold_blocks_length) (rule length_prevToken)

lemma length_buildTokens: "length (buildTokens c lm lt ls) = 130"
  unfolding buildTokens_unfold
  by (subst fold_blocks_length) (simp_all add: length_lookaheadToken length_prevFold length_hintInit)

lemma buildTokens_low:
  assumes "idx < 25"
  shows "buildTokens c lm lt ls ! idx =
         fold (prevToken ((real_of_int c - 21) / 87) lm lt) [0..<5] hintInit ! idx"
proof -
  have "idx < 30 \<or> 30 + 20 * 5 \<le> idx" using assms by simp
  then show ?thesis
    unfolding buildTokens_unfold
    by (subst fold_blocks_outside [where base = 30]) (use assms in \<open>simp_all add: lookaheadToken_outside\<close>)
qed

lemma buildTokens_prev_col0:
  assumes "f < 5"
  shows "buildTokens c lm lt ls ! (f * 5 + 0) =
     (if lm ! f \<ge> 0 then (real_of_int (lm ! f) - 21) / 87 - (real_of_int c - 21) / 87 else - 1)"
proof -
  have "f * 5 + 0 < 25" using assms by simp
  then have "buildTokens c lm lt ls ! (f * 5 + 0) =
     fold (prevToken ((real_of_int c - 21) / 87) lm lt) [0..<5] hintInit ! (0 + f * 5 + 0)"
    by (simp add: buildTokens_low)
  also have "\<dots> = (if lm ! f \<ge> 0 then (real_of_int (lm ! f) - 21) / 87 - (real_of_int c - 21) / 87 else - 1)"
  proof (rule fold_blocks_inside [where base = 0])
    show "f < 5" by (rule assms)
    show "(0::nat) < 5" by simp
    show "prevToken ((real_of_int c - 21) / 87) lm lt f t' ! (0 + f * 5 + 0) =
        (if lm ! f \<ge> 0 then (real_of_int (lm ! f) - 21) / 87 - (real_of_int c - 21) / 87 else - 1)"
      if "length t' = length hintInit" for t'
      using prevToken_col0 [of f t' "(real_of_int c - 21) / 87" lm lt] that assms
      by (simp add: length_hintInit)
  qed (simp_all add: prevToken_outside length_prevToken)
  finally show ?thesis .
qed

lemma buildTokens_prev_col2:
  assumes "f < 5"
  shows "buildTokens c lm lt ls ! (f * 5 + 2) = (if lm ! f \<ge> 0 then isBlackKey (lm ! f) else - 1)"
proof -
  have "f * 5 + 2 < 25" using assms by simp
  then have "buildTokens c lm lt ls ! (f * 5 + 2) =
     fold (prevToken ((real_of_int c - 21) / 87) lm lt) [0..<5] hintInit ! (0 + f * 5 + 2)"
    by (simp add: buildTokens_low)
  also have "\<dots> = (if lm ! f \<ge> 0 then isBlackKey (lm ! f) else - 1)"
  proof (rule fold_blocks_inside [where base = 0])
    show "f < 5" by (rule assms)
    show "(2::nat) < 5" by simp
    show "prevToken ((real_of_int c - 21) / 87) lm lt f t' ! (0 + f * 5 + 2) =
        (if lm ! f \<ge> 0 then isBlackKey (lm ! f) else - 1)"
      if "length t' = length hintInit" for t'
      using prevToken_col2 [of f t' "(real_of_int c - 21) / 87" lm lt] that assms
      by (simp add: length_hintInit)
  qed (simp_all add: prevToken_outside length_prevToken)
  finally show ?thesis .
qed

lemma buildTokens_cur:
  "buildTokens c lm lt ls ! 25 = midiToPitchClass c"
  "buildTokens c lm lt ls ! 27 = isBlackKey c"
proof -
  have o: "(25::nat) < 30 \<or> 30 + 20 * 5 \<le> (25::nat)" "(27::nat) < 30 \<or> 30 + 20 * 5 \<le> (27::nat)"
    by simp_all
  show "buildTokens c lm lt ls ! 25 = midiToPitchClass c"
    unfolding buildTokens_unfold
    by (subst fold_blocks_outside [where base = 30, OF _ o(1)])
       (simp_all add: lookaheadToken_outside length_prevFold length_hintInit)
  show "buildTokens c lm lt ls ! 27 = isBlackKey c"
    unfolding buildTokens_unfold
    by (subst fold_blocks_outside [where base = 30, OF _ o(2)])
       (simp_all add: lookaheadToken_outside length_prevFold length_hintInit)
qed

lemma buildTokens_look_col0:
  assumes "j < 20"
  shows "buildTokens c lm lt ls ! ((6 + j) * 5 + 0) =
     (if j < length ls \<and> LookaheadNote.midi (ls ! j) \<ge> 0
      then (real_of_int (LookaheadNote.midi (ls ! j)) - 21) / 87 - (real_of_int c - 21) / 87 else - 1)"
proof -
  have e: "(6 + j) * 5 + 0 = 30 + j * 5 + 0" by simp
  show ?thesis
    unfolding buildTokens_unfold e
  proof (rule fold_blocks_inside [where base = 30])
    show "j < 20" by (rule assms)
    show "(0::nat) < 5" by simp
    show "lookaheadToken ((real_of_int c - 21) / 87) ls j t' ! (30 + j * 5 + 0) =
        (if j < length ls \<and> LookaheadNote.midi (ls ! j) \<ge> 0
         then (real_of_int (LookaheadNote.midi (ls ! j)) - 21) / 87 - (real_of_int c - 21) / 87 else - 1)"
      if "length t' = length ((fold (prevToken ((real_of_int c - 21) / 87) lm lt) [0..<5] hintInit)
          [25 := midiToPitchClass c, 26 := 0, 27 := isBlackKey c, 28 := 1 / 2])" for t'
      using lookaheadToken_col0 [of j t' "(real_of_int c - 21) / 87" ls] that assms
      by (simp add: length_prevFold length_hintInit)
  qed (simp_all add: lookaheadToken_outside length_lookaheadToken)
qed

lemma buildTokens_look_col2:
  assumes "j < 20"
  shows "buildTokens c lm lt ls ! ((6 + j) * 5 + 2) =
     (if j < length ls \<and> LookaheadNote.midi (ls ! j) \<ge> 0
      then isBlackKey (LookaheadNote.midi (ls ! j)) else - 1)"
proof -
  have e: "(6 + j) * 5 + 2 = 30 + j * 5 + 2" by simp
  show ?thesis
    unfolding buildTokens_unfold e
  proof (rule fold_blocks_inside [where base = 30])
    show "j < 20" by (rule assms)
    show "(2::nat) < 5" by simp
    show "lookaheadToken ((real_of_int c - 21) / 87) ls j t' ! (30 + j * 5 + 2) =
        (if j < length ls \<and> LookaheadNote.midi (ls ! j) \<ge> 0
         then isBlackKey (LookaheadNote.midi (ls ! j)) else - 1)"
      if "length t' = length ((fold (prevToken ((real_of_int c - 21) / 87) lm lt) [0..<5] hintInit)
          [25 := midiToPitchClass c, 26 := 0, 27 := isBlackKey c, 28 := 1 / 2])" for t'
      using lookaheadToken_col2 [of j t' "(real_of_int c - 21) / 87" ls] that assms
      by (simp add: length_prevFold length_hintInit)
  qed (simp_all add: lookaheadToken_outside length_lookaheadToken)
qed

lemma js_rem_nonneg: "0 \<le> a \<Longrightarrow> js_rem a 12 = a mod 12"
  by (cases "a = 0") (simp_all add: js_rem_def)

lemma js_rem_neg: "a < 0 \<Longrightarrow> js_rem a 12 = - ((- a) mod 12)"
  by (simp add: js_rem_def)

lemma js_rem_mod: "js_rem (js_rem k 12 + 12) 12 = k mod 12"
proof (cases "0 \<le> k")
  case True
  then have "js_rem k 12 = k mod 12" by (rule js_rem_nonneg)
  moreover have "0 \<le> k mod 12 + 12" by simp
  ultimately show ?thesis by (simp add: js_rem_nonneg)
next
  case False
  then have r: "js_rem k 12 = - ((- k) mod 12)" by (simp add: js_rem_neg)
  have "(- k) mod 12 < 12" by simp
  then have "0 \<le> - ((- k) mod 12) + 12" by linarith
  then have "js_rem (js_rem k 12 + 12) 12 = (- ((- k) mod 12) + 12) mod 12"
    unfolding r by (rule js_rem_nonneg)
  also have "\<dots> = (- ((- k) mod 12)) mod 12" by simp
  also have "\<dots> = (- (- k)) mod 12" by (rule mod_minus_eq)
  finally show ?thesis by simp
qed

lemma midiToPitchClass_mod:
  "midiToPitchClass c = (if c < 0 then - 1 else real_of_int ((c - 21) mod 12) / 11)"
  by (simp add: midiToPitchClass_def js_rem_mod)

lemma isBlackKey_mod:
  "isBlackKey p = (if p < 0 then - 1 else if (p - 21) mod 12 \<in> {1, 4, 6, 9, 11} then 1 else 0)"
  by (simp add: isBlackKey_def js_rem_mod BLACK_KEY_NOTES_def Let_def)

section \<open>Results correspond to inputs\<close>

lemma resolveNote_resolvedFrom: "resolvedFrom n (snd (resolveNote n p))"
  by (cases "hasFixedFinger n")
     (auto simp: resolvedFrom_def resolveNote_fixed resolveNote_free sameButFinger_def hasFixedFinger_def
        split: option.splits)

lemma predictHand_all2:
  assumes "predictHandFingerings notes isLeft model = Some rs"
  shows "list_all2 resolvedFrom (sortedHand notes isLeft) rs"
proof -
  have len: "length rs = length (sortedHand notes isLeft)"
    by (rule predictHand_nth(1) [OF assms])
  have "resolvedFrom (sortedHand notes isLeft ! i) (rs ! i)" if "i < length rs" for i
    using predictHand_nth(2) [OF assms that] by (auto simp: resolveNote_resolvedFrom)
  with len show ?thesis by (simp add: list_all2_conv_all_nth)
qed

lemma predictFingerings_Some:
  assumes "predictFingerings notes m = Some out"
  obtains ls rs where "predictHandFingerings notes True (Models.left m) = Some ls"
    and "predictHandFingerings notes False (Models.right m) = Some rs"
    and "out = js_sort byTimeThenNote (ls @ rs)"
  using assms by (auto simp: predictFingerings_def Let_def split: option.splits)

lemma resolvedFrom_cmp:
  "resolvedFrom x y \<Longrightarrow> resolvedFrom a b \<Longrightarrow> (byTimeThenNote x a \<le> 0) = (byTimeThenNote y b \<le> 0)"
  using byTimeThenNote_same [of x y a b] by (simp add: resolvedFrom_def)

lemma predictFingerings_all2:
  assumes "predictFingerings notes m = Some out"
  shows "list_all2 resolvedFrom
           (js_sort byTimeThenNote (sortedHand notes True @ sortedHand notes False)) out"
proof -
  from assms obtain ls rs where l: "predictHandFingerings notes True (Models.left m) = Some ls"
    and r: "predictHandFingerings notes False (Models.right m) = Some rs"
    and out: "out = js_sort byTimeThenNote (ls @ rs)"
    by (rule predictFingerings_Some)
  have "list_all2 resolvedFrom (sortedHand notes True @ sortedHand notes False) (ls @ rs)"
    by (intro list_all2_appendI predictHand_all2 [OF l] predictHand_all2 [OF r])
  then show ?thesis unfolding out
    by (rule js_sort_all2) (rule resolvedFrom_cmp)
qed

lemma mset_hands: "mset (sortedHand notes True @ sortedHand notes False) = mset notes"
proof -
  have "(\<lambda>n. Note.left n = False) = (\<lambda>n. \<not> Note.left n = True)" by auto
  then show ?thesis
    by (simp add: sortedHand_def mset_js_sort)
qed

lemma mset_inputOrder:
  "mset (js_sort byTimeThenNote (sortedHand notes True @ sortedHand notes False)) = mset notes"
  by (simp only: mset_js_sort mset_hands)

section \<open>The scan for the highest score\<close>

lemma argmax_scan: "argmax (a0 # as) = fst (fold (scanStep (a0 # as)) [1..<length (a0 # as)] (0, a0))"
  by (simp add: argmax_def scanStep_def)

lemma scan_inv:
  assumes "1 \<le> n" "n \<le> length arr"
  shows "case fold (scanStep arr) [1..<n] (0, arr ! 0) of (i, v) \<Rightarrow>
           i < n \<and> v = arr ! i \<and> (\<forall>j<n. arr ! j \<le> v) \<and> (\<forall>j<i. arr ! j < v)"
  using assms
proof (induction n)
  case 0
  then show ?case by simp
next
  case (Suc n)
  show ?case
  proof (cases "n = 0")
    case True
    then show ?thesis by simp
  next
    case False
    then have n: "1 \<le> n" "n \<le> length arr" using Suc.prems by simp_all
    obtain i v where iv: "fold (scanStep arr) [1..<n] (0, arr ! 0) = (i, v)"
      by (cases "fold (scanStep arr) [1..<n] (0, arr ! 0)")
    from Suc.IH [OF n] iv
    have inv: "i < n" "v = arr ! i" "\<forall>j<n. arr ! j \<le> v" "\<forall>j<i. arr ! j < v"
      by auto
    have step: "fold (scanStep arr) [1..<Suc n] (0, arr ! 0) = scanStep arr n (i, v)"
      using n(1) iv by simp
    show ?thesis
    proof (cases "arr ! n > v")
      case True
      then have "scanStep arr n (i, v) = (n, arr ! n)" by (simp add: scanStep_def)
      moreover have "\<forall>j<Suc n. arr ! j \<le> arr ! n"
        using inv(3) True by (auto simp: less_Suc_eq intro: less_imp_le order_trans)
      moreover have "\<forall>j<n. arr ! j < arr ! n"
        using inv(3) True by (auto intro: le_less_trans)
      ultimately show ?thesis unfolding step by simp
    next
      case False
      then have "scanStep arr n (i, v) = (i, v)" by (simp add: scanStep_def)
      moreover have "\<forall>j<Suc n. arr ! j \<le> v"
        using inv(3) False by (auto simp: less_Suc_eq)
      ultimately show ?thesis unfolding step using inv by simp
    qed
  qed
qed

lemma argmax_props:
  assumes "arr \<noteq> []"
  shows "argmax arr < length arr"
    and "\<forall>j<length arr. arr ! j \<le> arr ! argmax arr"
    and "\<forall>j<argmax arr. arr ! j < arr ! argmax arr"
proof -
  from assms obtain a0 as where arr: "arr = a0 # as" by (cases arr) auto
  have am: "argmax arr = fst (fold (scanStep arr) [1..<length arr] (0, arr ! 0))"
    unfolding arr argmax_scan by simp
  obtain i v where iv: "fold (scanStep arr) [1..<length arr] (0, arr ! 0) = (i, v)"
    by (cases "fold (scanStep arr) [1..<length arr] (0, arr ! 0)")
  have "1 \<le> length arr" using arr by simp
  from scan_inv [OF this order_refl] iv
  have inv: "i < length arr" "v = arr ! i" "\<forall>j<length arr. arr ! j \<le> v" "\<forall>j<i. arr ! j < v"
    by auto
  have i: "argmax arr = i" unfolding am iv by simp
  show "argmax arr < length arr" using inv(1) i by simp
  show "\<forall>j<length arr. arr ! j \<le> arr ! argmax arr" using inv(2,3) i by simp
  show "\<forall>j<argmax arr. arr ! j < arr ! argmax arr" using inv(2,4) i by simp
qed

section \<open>The predictor that skips fixed notes\<close>

lemma handStep_skip_refines:
  assumes "handStep model sortedN i s = Some s'"
  shows "handStep_skip model sortedN i s = Some s'"
proof (cases "hasFixedFinger (sortedN ! i)")
  case True
  then obtain e where e: "finger (sortedN ! i) = Some e" "1 \<le> e" "e \<le> 5"
    by (auto simp: hasFixedFinger_def split: option.splits)
  from assms obtain logits where "s' = updateState sortedN i s (resolveNote (sortedN ! i) (argmax logits))"
    by (auto simp: handStep_def Let_def split: option.splits)
  then have "s' = updateState sortedN i s (e, sortedN ! i)"
    using e by (simp add: resolveNote_fixed [OF True])
  then show ?thesis using e by (simp add: handStep_skip_def Let_def)
next
  case False
  from assms obtain logits where lg: "model (tokensAt sortedN i s) = Some logits"
    and s': "s' = updateState sortedN i s (resolveNote (sortedN ! i) (argmax logits))"
    by (auto simp: handStep_def Let_def split: option.splits)
  from False lg s' show ?thesis
    by (auto simp: handStep_skip_def Let_def resolveNote_free hasFixedFinger_def split: option.splits)
qed

lemma handLoop_skip_Suc:
  "handLoop_skip model sortedN (Suc n) =
     Option.bind (handLoop_skip model sortedN n) (handStep_skip model sortedN n)"
  by (simp add: handLoop_skip_def)

lemma handLoop_skip_refines:
  "handLoop model sortedN n = Some s \<Longrightarrow> handLoop_skip model sortedN n = Some s"
proof (induction n arbitrary: s)
  case 0
  then show ?case by (simp add: handLoop_def handLoop_skip_def)
next
  case (Suc n)
  from Suc.prems obtain s0 where s0: "handLoop model sortedN n = Some s0"
    and st: "handStep model sortedN n s0 = Some s"
    by (auto simp: handLoop_Suc bind_eq_Some_conv)
  from Suc.IH [OF s0] handStep_skip_refines [OF st] show ?case
    by (simp add: handLoop_skip_Suc)
qed

section \<open>The finger state after a note\<close>

lemma arr_set_nth:
  assumes "f < length xs"
  shows "arr_set xs k v ! f = (if k = real f then v else xs ! f)"
proof (cases "k = real f")
  case True
  then have "\<lfloor>k\<rfloor> = int f" by simp
  with True assms show ?thesis by (simp add: arr_set_def)
next
  case False
  show ?thesis
  proof (cases "k = real_of_int \<lfloor>k\<rfloor> \<and> 0 \<le> k \<and> k < real (length xs)")
    case True
    then have "0 \<le> \<lfloor>k\<rfloor>" by simp
    then have "real (nat \<lfloor>k\<rfloor>) = real_of_int \<lfloor>k\<rfloor>" by simp
    with True False have "nat \<lfloor>k\<rfloor> \<noteq> f" by auto
    with True False show ?thesis by (simp add: arr_set_def)
  next
    case False
    with \<open>k \<noteq> real f\<close> show ?thesis by (auto simp add: arr_set_def)
  qed
qed

lemma ageFold_nth:
  "n \<le> length ts \<Longrightarrow>
   fold (\<lambda>f t. if t ! f \<noteq> Infinity then t[f := ftime_add (t ! f) dt] else t) [0..<n] ts ! g =
     (if g < n then ftime_add (ts ! g) dt else ts ! g)"
proof (induction n arbitrary: g)
  case 0
  then show ?case by simp
next
  case (Suc n)
  let ?t = "fold (\<lambda>f t. if t ! f \<noteq> Infinity then t[f := ftime_add (t ! f) dt] else t) [0..<n] ts"
  have len: "length ?t = length ts"
    by (induction n) simp_all
  have IH: "?t ! g = (if g < n then ftime_add (ts ! g) dt else ts ! g)" for g
    using Suc.IH [of g] Suc.prems by simp
  have n: "n < length ?t" using Suc.prems len by simp
  show ?case
  proof (cases "g = n")
    case True
    with n IH [of n] show ?thesis by (cases "ts ! n") simp_all
  next
    case False
    with n IH [of g] show ?thesis by (auto simp: less_Suc_eq)
  qed
qed

lemma ageFingers_nth:
  "length ts = 5 \<Longrightarrow> f < 5 \<Longrightarrow> ageFingers dt ts ! f = ftime_add (ts ! f) dt"
  by (simp add: ageFingers_def ageFold_nth del: upt_rec_numeral)

lemma updateState_midi_nth:
  assumes "f < length (fingerLastMidi s)"
  shows "fingerLastMidi (updateState sortedN i s fr) ! f =
         (if real f = fst fr - 1 then note (sortedN ! i) else fingerLastMidi s ! f)"
  using assms by (auto simp: updateState_def Let_def arr_set_nth)

lemma updateState_time_nth:
  assumes "length (fingerLastTime s) = 5" "f < 5"
  shows "fingerLastTime (updateState sortedN i s fr) ! f =
         (let u = (if real f = fst fr - 1
                   then Secs (- ((case duration (sortedN ! i) of None \<Rightarrow> 100 | Some d \<Rightarrow> d) / 1000))
                   else fingerLastTime s ! f)
          in if i + 1 < length sortedN
             then ftime_add u ((time (sortedN ! (i + 1)) - time (sortedN ! i)) / 1000)
             else u)"
  using assms
  by (auto simp: updateState_def Let_def arr_set_nth ageFingers_nth length_arr_set)

section \<open>The run over the store simulates the run over values\<close>

lemma resolveNote_h_eq:
  assumes "a < length h"
  shows "resolveNote_h h a pred =
         (h @ [snd (resolveNote (h ! a) pred)], fst (resolveNote (h ! a) pred), length h)"
  using assms
  by (auto simp: resolveNote_h_def resolveNote_def Let_def nth_append split: option.splits)

lemma deref_extend:
  assumes "take (length h0) h = h0" "length h0 \<le> length h" "\<forall>a\<in>set refs. a < length h0"
  shows "deref h refs = deref h0 refs"
proof -
  have "h ! a = h0 ! a" if "a < length h0" for a
    using assms(1) that by (metis nth_take)
  with assms(3) show ?thesis by (simp add: deref_def)
qed

lemma tokensAt_cong:
  "fingerLastMidi s = fingerLastMidi s' \<Longrightarrow> fingerLastTime s = fingerLastTime s' \<Longrightarrow>
   tokensAt srt i s = tokensAt srt i s'"
  by (simp add: tokensAt_def)

lemma updateState_fields:
  "fingerLastMidi (updateState srt i s fr) = arr_set (fingerLastMidi s) (fst fr - 1) (note (srt ! i))"
  "fingerLastTime (updateState srt i s (fg, r)) = fingerLastTime (updateState srt i s' (fg, r'))"
    if "fingerLastTime s = fingerLastTime s'"
  using that by (simp_all add: updateState_def Let_def)

lemma handStep_h_sim:
  assumes sim: "simulates h0 hs sp"
    and refs: "\<forall>a\<in>set sortedR. a < length h0" and i: "i < length sortedR"
  shows "case handStep_h model sortedR i hs of
           None \<Rightarrow> handStep model (deref h0 sortedR) i sp = None
         | Some hs' \<Rightarrow> \<exists>sp'. handStep model (deref h0 sortedR) i sp = Some sp' \<and> simulates h0 hs' sp'"
proof -
  obtain h s where hs: "hs = (h, s)" by (cases hs)
  from sim have tk: "take (length h0) h = h0" and le: "length h0 \<le> length h"
    and fm: "fingerLastMidi s = fingerLastMidi sp" and ft: "fingerLastTime s = fingerLastTime sp"
    and rs: "results s = [length h0..<length h]" and dr: "drop (length h0) h = results sp"
    by (simp_all add: simulates_def hs)
  have d: "deref h sortedR = deref h0 sortedR" by (rule deref_extend [OF tk le refs])
  have tok: "tokensAt (deref h sortedR) i s = tokensAt (deref h0 sortedR) i sp"
    unfolding d by (rule tokensAt_cong [OF fm ft])
  show ?thesis
  proof (cases "model (tokensAt (deref h0 sortedR) i sp)")
    case None
    then show ?thesis by (simp add: handStep_h_def handStep_def hs tok Let_def)
  next
    case (Some logits)
    have a: "sortedR ! i < length h0" using refs i by simp
    then have a': "sortedR ! i < length h" using le by simp
    have cur: "h ! (sortedR ! i) = deref h0 sortedR ! i"
      using d i by (metis deref_def nth_map)
    let ?fr = "resolveNote (deref h0 sortedR ! i) (argmax logits)"
    let ?h' = "h @ [snd ?fr]"
    have res: "resolveNote_h h (sortedR ! i) (argmax logits) = (?h', fst ?fr, length h)"
      by (simp add: resolveNote_h_eq [OF a'] cur)
    have tk': "take (length h0) ?h' = h0" using tk le by simp
    have d': "deref ?h' sortedR = deref h0 sortedR"
      by (rule deref_extend [OF tk' _ refs]) (use le in simp)
    let ?s' = "updateState (deref h0 sortedR) i s (fst ?fr, length h)"
    let ?sp' = "updateState (deref h0 sortedR) i sp ?fr"
    have step_h: "handStep_h model sortedR i hs = Some (?h', ?s')"
      by (simp add: handStep_h_def hs tok Some Let_def res d')
    have step_p: "handStep model (deref h0 sortedR) i sp = Some ?sp'"
      by (simp add: handStep_def Some Let_def)
    have "simulates h0 (?h', ?s') ?sp'"
      using tk' le fm ft rs dr
      by (simp add: simulates_def updateState_def Let_def)
    with step_h step_p show ?thesis by simp
  qed
qed

lemma handLoop_h_Suc:
  "handLoop_h model sortedR (Suc n) h =
     Option.bind (handLoop_h model sortedR n h) (handStep_h model sortedR n)"
  by (simp add: handLoop_h_def)

lemma simulates_init: "simulates h0 (h0, initState) initState"
  by (simp add: simulates_def initState_def)

lemma handLoop_h_sim:
  assumes refs: "\<forall>a\<in>set sortedR. a < length h0" and n: "n \<le> length sortedR"
  shows "case handLoop_h model sortedR n h0 of
           None \<Rightarrow> handLoop model (deref h0 sortedR) n = None
         | Some hs \<Rightarrow> \<exists>sp. handLoop model (deref h0 sortedR) n = Some sp \<and> simulates h0 hs sp"
  using n
proof (induction n)
  case 0
  then show ?case by (simp add: handLoop_h_def handLoop_0 simulates_init)
next
  case (Suc n)
  then have IH: "case handLoop_h model sortedR n h0 of
           None \<Rightarrow> handLoop model (deref h0 sortedR) n = None
         | Some hs \<Rightarrow> \<exists>sp. handLoop model (deref h0 sortedR) n = Some sp \<and> simulates h0 hs sp"
    and n: "n < length sortedR" by simp_all
  show ?case
  proof (cases "handLoop_h model sortedR n h0")
    case None
    with IH show ?thesis by (simp add: handLoop_h_Suc handLoop_Suc)
  next
    case (Some hs)
    with IH obtain sp where sp: "handLoop model (deref h0 sortedR) n = Some sp"
      and sim: "simulates h0 hs sp" by auto
    from handStep_h_sim [OF sim refs n, of model] show ?thesis
      by (auto simp add: handLoop_h_Suc handLoop_Suc Some sp split: option.splits)
  qed
qed

lemma map_insort_cmp:
  "map f (insort_cmp (\<lambda>a b. c (f a) (f b)) x ys) = insort_cmp c (f x) (map f ys)"
  by (induction ys) simp_all

lemma map_js_sort: "map f (js_sort (\<lambda>a b. c (f a) (f b)) xs) = js_sort c (map f xs)"
  by (induction xs) (simp_all add: js_sort_def map_insort_cmp)

lemma deref_js_sort: "deref h (js_sort (byTimeThenNote_h h) refs) = js_sort byTimeThenNote (deref h refs)"
proof -
  have "byTimeThenNote_h h = (\<lambda>a b. byTimeThenNote ((!) h a) ((!) h b))"
    by (simp add: byTimeThenNote_h_def fun_eq_iff)
  then show ?thesis by (simp add: deref_def map_js_sort)
qed

lemma deref_filter:
  "deref h (filter (\<lambda>a. Note.left (h ! a) = isLeft) refs) =
   filter (\<lambda>n. Note.left n = isLeft) (deref h refs)"
  by (simp add: deref_def filter_map comp_def)

lemma deref_filter_Nil:
  "filter (\<lambda>n. Note.left n = isLeft) (deref h refs) = [] \<longleftrightarrow>
   filter (\<lambda>a. Note.left (h ! a) = isLeft) refs = []"
  using deref_filter [of h isLeft refs] by (metis deref_def map_is_Nil_conv)

lemma deref_upt: "deref h [k..<length h] = drop k h"
  by (rule nth_equalityI) (simp_all add: deref_def)

lemma predictHand_h_sim:
  assumes refs: "\<forall>a\<in>set notes. a < length h"
  shows "case predictHandFingerings_h h notes isLeft model of
           None \<Rightarrow> predictHandFingerings (deref h notes) isLeft model = None
         | Some hr \<Rightarrow>
             predictHandFingerings (deref h notes) isLeft model = Some (deref (fst hr) (snd hr)) \<and>
             take (length h) (fst hr) = h \<and> length h \<le> length (fst hr) \<and>
             snd hr = [length h..<length (fst hr)]"
proof (cases "filter (\<lambda>a. Note.left (h ! a) = isLeft) notes = []")
  case True
  then have "filter (\<lambda>n. Note.left n = isLeft) (deref h notes) = []"
    by (simp add: deref_filter_Nil)
  with True show ?thesis
    by (simp add: predictHandFingerings_h_def predictHandFingerings_def deref_def)
next
  case False
  let ?hn = "filter (\<lambda>a. Note.left (h ! a) = isLeft) notes"
  let ?srt = "js_sort (byTimeThenNote_h h) ?hn"
  have ne: "filter (\<lambda>n. Note.left n = isLeft) (deref h notes) \<noteq> []"
    using False by (simp add: deref_filter_Nil)
  have d: "deref h ?srt = js_sort byTimeThenNote (filter (\<lambda>n. Note.left n = isLeft) (deref h notes))"
    by (simp add: deref_js_sort deref_filter)
  have len: "length (js_sort byTimeThenNote (filter (\<lambda>n. Note.left n = isLeft) (deref h notes)))
      = length ?srt"
    using d by (metis deref_def length_map)
  have srefs: "\<forall>a\<in>set ?srt. a < length h" using refs by (simp add: set_js_sort)
  have ph: "predictHandFingerings_h h notes isLeft model =
      map_option (\<lambda>hs. (fst hs, results (snd hs))) (handLoop_h model ?srt (length ?srt) h)"
    using False by (simp add: predictHandFingerings_h_def Let_def)
  have pp: "predictHandFingerings (deref h notes) isLeft model =
      map_option results (handLoop model (deref h ?srt) (length ?srt))"
    using ne by (simp add: predictHandFingerings_def Let_def d len)
  from handLoop_h_sim [OF srefs order_refl, of model]
  show ?thesis
  proof (cases "handLoop_h model ?srt (length ?srt) h")
    case None
    with handLoop_h_sim [OF srefs order_refl, of model] show ?thesis
      by (simp add: ph pp)
  next
    case (Some hs)
    with handLoop_h_sim [OF srefs order_refl, of model]
    obtain sp where sp: "handLoop model (deref h ?srt) (length ?srt) = Some sp"
      and sim: "simulates h hs sp" by auto
    from sim have "deref (fst hs) (results (snd hs)) = results sp"
      by (simp add: simulates_def deref_upt)
    with sim show ?thesis
      by (simp add: ph pp Some sp simulates_def)
  qed
qed

lemma predictHand_h_None:
  assumes "\<forall>a\<in>set notes. a < length h" "predictHandFingerings_h h notes isLeft model = None"
  shows "predictHandFingerings (deref h notes) isLeft model = None"
  using predictHand_h_sim [OF assms(1), of isLeft model] assms(2) by simp

lemma predictHand_h_Some:
  assumes "\<forall>a\<in>set notes. a < length h" "predictHandFingerings_h h notes isLeft model = Some (h', rs)"
  shows "predictHandFingerings (deref h notes) isLeft model = Some (deref h' rs)"
    and "take (length h) h' = h" and "length h \<le> length h'" and "rs = [length h..<length h']"
  using predictHand_h_sim [OF assms(1), of isLeft model] assms(2) by simp_all

lemma two_runs:
  assumes refs: "\<forall>a\<in>set notes. a < length h"
    and A: "predictHandFingerings_h h notes b1 m1 = Some (h1, r1)"
    and B: "predictHandFingerings_h h1 notes b2 m2 = Some (h2, r2)"
  shows "predictHandFingerings (deref h notes) b1 m1 = Some (deref h2 r1)"
    and "predictHandFingerings (deref h notes) b2 m2 = Some (deref h2 r2)"
    and "take (length h) h2 = h" and "length h \<le> length h2"
    and "r1 @ r2 = [length h..<length h2]"
proof -
  note a = predictHand_h_Some [OF refs A]
  have refs1: "\<forall>a\<in>set notes. a < length h1" using refs a(3) by auto
  note b = predictHand_h_Some [OF refs1 B]
  have d1: "deref h1 notes = deref h notes" by (rule deref_extend [OF a(2,3) refs])
  have "\<forall>r\<in>set r1. r < length h1" by (simp add: a(4))
  then have "deref h2 r1 = deref h1 r1" by (rule deref_extend [OF b(2,3)])
  with a(1) show "predictHandFingerings (deref h notes) b1 m1 = Some (deref h2 r1)" by simp
  from b(1) d1 show "predictHandFingerings (deref h notes) b2 m2 = Some (deref h2 r2)" by simp
  have "take (length h) h2 = take (length h) (take (length h1) h2)"
    using a(3) by (simp add: min_def)
  then show "take (length h) h2 = h" by (simp add: a(2) b(2))
  show "length h \<le> length h2" using a(3) b(3) by simp
  show "r1 @ r2 = [length h..<length h2]"
    using a(3,4) b(3,4) by (metis le_Suc_ex upt_add_eq_append)
qed

lemma deref_append: "deref h (xs @ ys) = deref h xs @ deref h ys"
  by (simp add: deref_def)

lemma predictFingerings_h_sim:
  assumes refs: "\<forall>a\<in>set notes. a < length h"
  shows "case predictFingerings_h h notes m of
           None \<Rightarrow> predictFingerings (deref h notes) m = None
         | Some hr \<Rightarrow>
             predictFingerings (deref h notes) m = Some (deref (fst hr) (snd hr)) \<and>
             take (length h) (fst hr) = h \<and> length h \<le> length (fst hr) \<and>
             mset (snd hr) = mset [length h..<length (fst hr)]"
proof (cases "predictHandFingerings_h h notes True (Models.left m)")
  case None
  with predictHand_h_None [OF refs None] show ?thesis
    by (simp add: predictFingerings_h_def predictFingerings_def)
next
  case (Some hl)
  obtain h1 ls where hl: "hl = (h1, ls)" by (cases hl)
  note A = Some [unfolded hl]
  note a = predictHand_h_Some [OF refs A]
  have refs1: "\<forall>a\<in>set notes. a < length h1" using refs a(3) by auto
  have d1: "deref h1 notes = deref h notes" by (rule deref_extend [OF a(2,3) refs])
  show ?thesis
  proof (cases "predictHandFingerings_h h1 notes False (Models.right m)")
    case None
    from predictHand_h_None [OF refs1 None] a(1) A None show ?thesis
      by (simp add: predictFingerings_h_def predictFingerings_def d1)
  next
    case (Some hr)
    obtain h2 rs where hr: "hr = (h2, rs)" by (cases hr)
    note B = Some [unfolded hr]
    note t = two_runs [OF refs A B]
    have "predictFingerings_h h notes m = Some (h2, js_sort (byTimeThenNote_h h2) (ls @ rs))"
      by (simp add: predictFingerings_h_def A B)
    moreover have "predictFingerings (deref h notes) m =
        Some (deref h2 (js_sort (byTimeThenNote_h h2) (ls @ rs)))"
      by (simp add: predictFingerings_def t(1,2) deref_js_sort deref_append)
    moreover have "mset (js_sort (byTimeThenNote_h h2) (ls @ rs)) = mset [length h..<length h2]"
      by (simp only: mset_js_sort t(5))
    ultimately show ?thesis using t(3,4) by simp
  qed
qed

lemma runHandsRightFirst_h_sim:
  assumes refs: "\<forall>a\<in>set notes. a < length h"
  shows "case runHandsRightFirst_h h notes m of
           None \<Rightarrow> runHandsRightFirst (deref h notes) m = None
         | Some hr \<Rightarrow>
             runHandsRightFirst (deref h notes) m = Some (deref (fst hr) (snd hr)) \<and>
             take (length h) (fst hr) = h \<and> length h \<le> length (fst hr) \<and>
             mset (snd hr) = mset [length h..<length (fst hr)]"
proof (cases "predictHandFingerings_h h notes False (Models.right m)")
  case None
  with predictHand_h_None [OF refs None] show ?thesis
    by (simp add: runHandsRightFirst_h_def runHandsRightFirst_def)
next
  case (Some hl)
  obtain h1 rs where hl: "hl = (h1, rs)" by (cases hl)
  note A = Some [unfolded hl]
  note a = predictHand_h_Some [OF refs A]
  have refs1: "\<forall>a\<in>set notes. a < length h1" using refs a(3) by auto
  have d1: "deref h1 notes = deref h notes" by (rule deref_extend [OF a(2,3) refs])
  show ?thesis
  proof (cases "predictHandFingerings_h h1 notes True (Models.left m)")
    case None
    from predictHand_h_None [OF refs1 None] a(1) A None show ?thesis
      by (simp add: runHandsRightFirst_h_def runHandsRightFirst_def d1)
  next
    case (Some hr)
    obtain h2 ls where hr: "hr = (h2, ls)" by (cases hr)
    note B = Some [unfolded hr]
    note t = two_runs [OF refs A B]
    have "runHandsRightFirst_h h notes m = Some (h2, js_sort (byTimeThenNote_h h2) (ls @ rs))"
      by (simp add: runHandsRightFirst_h_def A B)
    moreover have "runHandsRightFirst (deref h notes) m =
        Some (deref h2 (js_sort (byTimeThenNote_h h2) (ls @ rs)))"
      by (simp add: runHandsRightFirst_def t(1,2) deref_js_sort deref_append)
    moreover have "mset (ls @ rs) = mset (rs @ ls)" by simp
    then have "mset (js_sort (byTimeThenNote_h h2) (ls @ rs)) = mset [length h..<length h2]"
      by (simp only: mset_js_sort t(5))
    ultimately show ?thesis using t(3,4) by simp
  qed
qed

lemma runHandsRightFirst_eq: "runHandsRightFirst notes m = predictFingerings notes m"
  by (simp add: runHandsRightFirst_def predictFingerings_def split: option.splits)

lemma returned_predictFingerings_h:
  assumes "\<forall>a\<in>set notes. a < length h"
  shows "returned (predictFingerings_h h notes m) = predictFingerings (deref h notes) m"
  using predictFingerings_h_sim [OF assms, of m]
  by (cases "predictFingerings_h h notes m") (simp_all add: returned_def)

lemma returned_runHandsRightFirst_h:
  assumes "\<forall>a\<in>set notes. a < length h"
  shows "returned (runHandsRightFirst_h h notes m) = runHandsRightFirst (deref h notes) m"
  using runHandsRightFirst_h_sim [OF assms, of m]
  by (cases "runHandsRightFirst_h h notes m") (simp_all add: returned_def)

section \<open>A run returns when its sessions do\<close>

text \<open>
  The only way a run ends without a result is a failure of a session. With sessions that
  return scores for every token matrix, both functions return, and \<open>predictFingerings\<close>
  returns as many notes as it was given.
\<close>

lemma handLoop_returns:
  assumes "\<forall>t. model t \<noteq> None"
  shows "\<exists>s. handLoop model sortedN n = Some s"
proof (induction n)
  case 0
  show ?case by (simp add: handLoop_0)
next
  case (Suc n)
  then obtain s where s: "handLoop model sortedN n = Some s" ..
  from assms obtain logits where "model (tokensAt sortedN n s) = Some logits" by auto
  then show ?case by (simp add: handLoop_Suc s handStep_def Let_def)
qed

lemma predictHandFingerings_returns:
  assumes "\<forall>t. model t \<noteq> None"
  shows "\<exists>rs. predictHandFingerings notes isLeft model = Some rs"
proof -
  obtain s where
    "handLoop model (js_sort byTimeThenNote (filter (\<lambda>n. Note.left n = isLeft) notes))
       (length (js_sort byTimeThenNote (filter (\<lambda>n. Note.left n = isLeft) notes))) = Some s"
    using handLoop_returns [OF assms] by blast
  then show ?thesis by (simp add: predictHandFingerings_def Let_def)
qed

lemma predictFingerings_returns:
  assumes "\<forall>t. Models.left m t \<noteq> None" "\<forall>t. Models.right m t \<noteq> None"
  shows "\<exists>out. predictFingerings notes m = Some out \<and> length out = length notes"
proof -
  from predictHandFingerings_returns [OF assms(1)] obtain ls
    where l: "predictHandFingerings notes True (Models.left m) = Some ls" by blast
  from predictHandFingerings_returns [OF assms(2)] obtain rs
    where r: "predictHandFingerings notes False (Models.right m) = Some rs" by blast
  have p: "predictFingerings notes m = Some (js_sort byTimeThenNote (ls @ rs))"
    by (simp add: predictFingerings_def l r)
  from predictFingerings_all2 [OF p]
  have "length (js_sort byTimeThenNote (ls @ rs)) =
        length (js_sort byTimeThenNote (sortedHand notes True @ sortedHand notes False))"
    by (simp add: list_all2_lengthD)
  also have "\<dots> = length notes"
    by (metis mset_inputOrder size_mset)
  finally show ?thesis using p by simp
qed

section \<open>The claims\<close>

text \<open>
  Claim C1 (constraint preservation). Whenever \<open>predictHandFingerings\<close> or
  \<open>predictFingerings\<close> returns, its output corresponds position by position to the input
  notes (for one hand: the hand's notes in processing order; for both hands: all the input
  notes, each exactly once, in the order of the final sort), every output note agrees with
  its input note on all fields but the finger, and an input note that carries a finger
  between 1 and 5 has that same finger in the output. The scores of the session do not
  occur in the statement: it holds for every session.
\<close>

theorem fixed_finger_preserved:
  "(predictHandFingerings notes isLeft model = Some rs \<longrightarrow>
      list_all2 (\<lambda>n r. sameButFinger n r \<and> (hasFixedFinger n \<longrightarrow> finger r = finger n))
        (sortedHand notes isLeft) rs) \<and>
   (predictFingerings notes m = Some out \<longrightarrow>
      mset (js_sort byTimeThenNote (sortedHand notes True @ sortedHand notes False)) = mset notes \<and>
      list_all2 (\<lambda>n r. sameButFinger n r \<and> (hasFixedFinger n \<longrightarrow> finger r = finger n))
        (js_sort byTimeThenNote (sortedHand notes True @ sortedHand notes False)) out)"
proof (intro conjI impI)
  assume "predictHandFingerings notes isLeft model = Some rs"
  from predictHand_all2 [OF this]
  show "list_all2 (\<lambda>n r. sameButFinger n r \<and> (hasFixedFinger n \<longrightarrow> finger r = finger n))
        (sortedHand notes isLeft) rs"
    by (rule list_all2_mono) (auto simp: resolvedFrom_def)
next
  assume "predictFingerings notes m = Some out"
  from predictFingerings_all2 [OF this]
  show "list_all2 (\<lambda>n r. sameButFinger n r \<and> (hasFixedFinger n \<longrightarrow> finger r = finger n))
        (js_sort byTimeThenNote (sortedHand notes True @ sortedHand notes False)) out"
    by (rule list_all2_mono) (auto simp: resolvedFrom_def)
next
  show "mset (js_sort byTimeThenNote (sortedHand notes True @ sortedHand notes False)) = mset notes"
    by (rule mset_inputOrder)
qed

theorem fixed_finger_preserved_witness:
  "predictHandFingerings fixedNotes False (createMockSession 0) = Some fixedOut \<and>
   predictFingerings fixedNotes fixedModels = Some fixedOut \<and>
   list_all2 (\<lambda>n r. sameButFinger n r \<and> (hasFixedFinger n \<longrightarrow> finger r = finger n))
     (sortedHand fixedNotes False) fixedOut \<and>
   list_all2 (\<lambda>n r. sameButFinger n r \<and> (hasFixedFinger n \<longrightarrow> finger r = finger n))
     (js_sort byTimeThenNote (sortedHand fixedNotes True @ sortedHand fixedNotes False)) fixedOut"
proof -
  have h1: "predictHandFingerings fixedNotes False (createMockSession 0) = Some fixedOut"
    by code_simp
  have h2: "predictFingerings fixedNotes fixedModels = Some fixedOut"
    by code_simp
  from fixed_finger_preserved [of fixedNotes False "createMockSession 0" fixedOut fixedModels fixedOut]
    h1 h2
  show ?thesis by blast
qed

text \<open>
  Claim C2 (sort postcondition). Whenever \<open>predictFingerings\<close> returns, the returned list is
  sorted by onset time and then pitch: every element precedes every later one in that
  order, and in particular each adjacent pair has \<open>time[i] < time[i+1]\<close>, or equal times
  and \<open>note[i] \<le> note[i+1]\<close>. Neither the order of the input nor the sessions occur in
  the statement.
\<close>

theorem predictFingerings_sorted:
  assumes "predictFingerings notes m = Some out"
  shows "sorted_wrt timeNoteLe out \<and>
         (\<forall>i. Suc i < length out \<longrightarrow>
            time (out ! i) < time (out ! Suc i) \<or>
            (time (out ! i) = time (out ! Suc i) \<and> note (out ! i) \<le> note (out ! Suc i)))"
proof -
  from assms obtain ls rs where out: "out = js_sort byTimeThenNote (ls @ rs)"
    by (rule predictFingerings_Some)
  have srt: "sorted_wrt timeNoteLe out" unfolding out by (rule sorted_js_sort)
  have "timeNoteLe (out ! i) (out ! Suc i)" if "Suc i < length out" for i
    using srt that by (simp add: sorted_wrt_iff_nth_less)
  with srt show ?thesis by (simp add: timeNoteLe_def)
qed

theorem predictFingerings_sorted_witness:
  "predictFingerings scrambled mocks = Some scrambledOut \<and>
   sorted_wrt timeNoteLe scrambledOut \<and>
   (time (scrambledOut ! 1) < time (scrambledOut ! Suc 1) \<or>
    (time (scrambledOut ! 1) = time (scrambledOut ! Suc 1) \<and>
     note (scrambledOut ! 1) \<le> note (scrambledOut ! Suc 1)))"
proof -
  have h: "predictFingerings scrambled mocks = Some scrambledOut"
    by code_simp
  have len: "Suc 1 < length scrambledOut"
    by (simp add: scrambledOut_def)
  from predictFingerings_sorted [OF h] len h show ?thesis by blast
qed

text \<open>
  Claim C3 (skipping the model on fixed notes), as the code has it. Whenever the hand
  predictor of the program returns, the variant that does not run the model on notes with
  a fixed finger returns the same list. The program runs the model on every note and
  lets a failure of that call end the run, so the condition cannot be dropped.
\<close>

theorem skip_variant_refines:
  assumes "predictHandFingerings notes isLeft model \<noteq> None"
  shows "predictHandFingerings_skip notes isLeft model = predictHandFingerings notes isLeft model"
proof (cases "filter (\<lambda>n. Note.left n = isLeft) notes = []")
  case True
  then show ?thesis
    by (simp add: predictHandFingerings_def predictHandFingerings_skip_def)
next
  case False
  let ?srt = "js_sort byTimeThenNote (filter (\<lambda>n. Note.left n = isLeft) notes)"
  from assms False obtain s where s: "handLoop model ?srt (length ?srt) = Some s"
    by (auto simp: predictHandFingerings_def Let_def)
  from handLoop_skip_refines [OF s] s False show ?thesis
    by (simp add: predictHandFingerings_def predictHandFingerings_skip_def Let_def)
qed

theorem skip_variant_refines_witness:
  "predictHandFingerings fixedNotes False (createMockSession 0) \<noteq> None \<and>
   predictHandFingerings_skip fixedNotes False (createMockSession 0) = Some fixedOut"
proof -
  have h1: "predictHandFingerings fixedNotes False (createMockSession 0) = Some fixedOut"
    by code_simp
  then have h2: "predictHandFingerings fixedNotes False (createMockSession 0) \<noteq> None"
    by simp
  from skip_variant_refines [OF h2] h1 h2 show ?thesis by simp
qed

text \<open>
  Claim C3 as stated fails: on one note with the fixed finger 3 and a session whose
  \<open>run\<close> fails, the program fails, and the variant returns the note.
\<close>

theorem skip_variant_counterexample:
  "predictHandFingerings [(mkNote False 60 0)\<lparr>finger := Some 3\<rparr>] False failingSession = None \<and>
   predictHandFingerings_skip [(mkNote False 60 0)\<lparr>finger := Some 3\<rparr>] False failingSession =
     Some [(mkNote False 60 0)\<lparr>finger := Some 3\<rparr>]"
  by code_simp

text \<open>
  Claim C4 (malformed pitch), as the code has it. The encoder is total: for every current
  pitch, finger state and lookahead it returns \<open>26 * 5\<close> values. The sentinel \<open>-1\<close> of
  the offset feature (the pitch-class feature in the current row) and of the black-key
  feature is written for a negative pitch. A pitch that is not negative is encoded by the
  ordinary formulas, also when it lies outside 21 to 108: the encoder tests \<open>midi >= 0\<close>
  and nothing else.
\<close>

theorem malformed_pitch_encoding:
  "length (buildTokens c lm lt ls) = 26 * 5 \<and>
   (f < 5 \<longrightarrow>
      (lm ! f < 0 \<longrightarrow> buildTokens c lm lt ls ! (f * 5 + 0) = - 1 \<and>
                       buildTokens c lm lt ls ! (f * 5 + 2) = - 1) \<and>
      (0 \<le> lm ! f \<longrightarrow>
         buildTokens c lm lt ls ! (f * 5 + 0) =
           (real_of_int (lm ! f) - 21) / 87 - (real_of_int c - 21) / 87 \<and>
         buildTokens c lm lt ls ! (f * 5 + 2) =
           (if (lm ! f - 21) mod 12 \<in> {1, 4, 6, 9, 11} then 1 else 0))) \<and>
   (j < 20 \<longrightarrow> j < length ls \<longrightarrow>
      (LookaheadNote.midi (ls ! j) < 0 \<longrightarrow>
         buildTokens c lm lt ls ! ((6 + j) * 5 + 0) = - 1 \<and>
         buildTokens c lm lt ls ! ((6 + j) * 5 + 2) = - 1) \<and>
      (0 \<le> LookaheadNote.midi (ls ! j) \<longrightarrow>
         buildTokens c lm lt ls ! ((6 + j) * 5 + 0) =
           (real_of_int (LookaheadNote.midi (ls ! j)) - 21) / 87 - (real_of_int c - 21) / 87 \<and>
         buildTokens c lm lt ls ! ((6 + j) * 5 + 2) =
           (if (LookaheadNote.midi (ls ! j) - 21) mod 12 \<in> {1, 4, 6, 9, 11} then 1 else 0))) \<and>
   (c < 0 \<longrightarrow> buildTokens c lm lt ls ! (5 * 5 + 0) = - 1 \<and>
               buildTokens c lm lt ls ! (5 * 5 + 2) = - 1) \<and>
   (0 \<le> c \<longrightarrow>
      buildTokens c lm lt ls ! (5 * 5 + 0) = real_of_int ((c - 21) mod 12) / 11 \<and>
      buildTokens c lm lt ls ! (5 * 5 + 2) = (if (c - 21) mod 12 \<in> {1, 4, 6, 9, 11} then 1 else 0))"
proof (intro conjI impI)
  show "length (buildTokens c lm lt ls) = 26 * 5" by (simp add: length_buildTokens)
qed (simp_all only: buildTokens_prev_col0 buildTokens_prev_col2 buildTokens_look_col0
       buildTokens_look_col2, simp_all add: buildTokens_cur midiToPitchClass_mod isBlackKey_mod)

theorem malformed_pitch_encoding_witness:
  "(0::nat) < 5 \<and> (0::nat) < 20 \<and> (0::nat) < length lowPitchLookahead \<and>
   noneMidi ! 0 < 0 \<and> 0 \<le> LookaheadNote.midi (lowPitchLookahead ! 0) \<and> (0::int) \<le> 110 \<and>
   length (buildTokens 110 noneMidi neverUsed lowPitchLookahead) = 26 * 5 \<and>
   buildTokens 110 noneMidi neverUsed lowPitchLookahead ! (0 * 5 + 0) = - 1 \<and>
   buildTokens 110 noneMidi neverUsed lowPitchLookahead ! (0 * 5 + 2) = - 1 \<and>
   buildTokens 110 noneMidi neverUsed lowPitchLookahead ! ((6 + 0) * 5 + 0) = - (100 / 87) \<and>
   buildTokens 110 noneMidi neverUsed lowPitchLookahead ! ((6 + 0) * 5 + 2) = 1 \<and>
   buildTokens 110 noneMidi neverUsed lowPitchLookahead ! (5 * 5 + 0) = 5 / 11 \<and>
   buildTokens 110 noneMidi neverUsed lowPitchLookahead ! (5 * 5 + 2) = 0"
  using malformed_pitch_encoding [of 110 noneMidi neverUsed lowPitchLookahead 0 0]
  by (simp add: noneMidi_def lowPitchLookahead_def)

text \<open>
  Claim C4 as stated fails: a lookahead note of pitch 10 (below 21) after a current note of
  pitch 60 gets the offset feature \<open>-50/87\<close> and the black-key feature \<open>1\<close>, and one of pitch
  110 (above 108) gets \<open>50/87\<close> and \<open>0\<close>; none of them is the sentinel \<open>-1\<close>.
\<close>

theorem malformed_pitch_counterexample:
  "length (buildTokens 60 noneMidi neverUsed lowPitchLookahead) = 26 * 5 \<and>
   buildTokens 60 noneMidi neverUsed lowPitchLookahead ! ((6 + 0) * 5 + 0) = - (50 / 87) \<and>
   buildTokens 60 noneMidi neverUsed lowPitchLookahead ! ((6 + 0) * 5 + 2) = 1 \<and>
   buildTokens 60 noneMidi neverUsed lowPitchLookahead ! ((6 + 1) * 5 + 0) = 50 / 87 \<and>
   buildTokens 60 noneMidi neverUsed lowPitchLookahead ! ((6 + 1) * 5 + 2) = 0"
  by code_simp

text \<open>
  Claim C5 (pitch features). In the row of finger \<open>f\<close> and in the row of lookahead slot
  \<open>j\<close>, the first feature is \<open>(pitch - 21) / 87 - (currentPitch - 21) / 87\<close> when the pitch
  is present (the finger has played, the slot holds a note, and the pitch is not negative)
  and \<open>-1\<close> when it is absent; the first feature of the current row is
  \<open>((currentPitch - 21) mod 12) / 11\<close> when the current pitch is present.
\<close>

theorem pitch_features:
  "(f < 5 \<longrightarrow>
      buildTokens c lm lt ls ! (f * 5 + 0) =
        (if 0 \<le> lm ! f then (real_of_int (lm ! f) - 21) / 87 - (real_of_int c - 21) / 87 else - 1)) \<and>
   (j < 20 \<longrightarrow>
      buildTokens c lm lt ls ! ((6 + j) * 5 + 0) =
        (if j < length ls \<and> 0 \<le> LookaheadNote.midi (ls ! j)
         then (real_of_int (LookaheadNote.midi (ls ! j)) - 21) / 87 - (real_of_int c - 21) / 87
         else - 1)) \<and>
   (0 \<le> c \<longrightarrow> buildTokens c lm lt ls ! (5 * 5 + 0) = real_of_int ((c - 21) mod 12) / 11)"
proof (intro conjI impI)
  assume "f < 5"
  then show "buildTokens c lm lt ls ! (f * 5 + 0) =
        (if 0 \<le> lm ! f then (real_of_int (lm ! f) - 21) / 87 - (real_of_int c - 21) / 87 else - 1)"
    by (rule buildTokens_prev_col0)
next
  assume "j < 20"
  then show "buildTokens c lm lt ls ! ((6 + j) * 5 + 0) =
        (if j < length ls \<and> 0 \<le> LookaheadNote.midi (ls ! j)
         then (real_of_int (LookaheadNote.midi (ls ! j)) - 21) / 87 - (real_of_int c - 21) / 87
         else - 1)"
    by (rule buildTokens_look_col0)
next
  assume "0 \<le> c"
  then show "buildTokens c lm lt ls ! (5 * 5 + 0) = real_of_int ((c - 21) mod 12) / 11"
    by (simp add: buildTokens_cur midiToPitchClass_mod)
qed

theorem pitch_features_witness:
  "(1::nat) < 5 \<and> (0::nat) < 20 \<and> (0::int) \<le> 60 \<and>
   buildTokens 60 usedMidi usedTime nextE ! (1 * 5 + 0) = 2 / 87 \<and>
   buildTokens 60 usedMidi usedTime nextE ! ((6 + 0) * 5 + 0) = 4 / 87 \<and>
   buildTokens 60 usedMidi usedTime nextE ! (5 * 5 + 0) = 3 / 11"
  using pitch_features [of 1 60 usedMidi usedTime nextE 0]
  by (simp add: usedMidi_def nextE_def)

text \<open>
  Claim C6 (finger state). Let the hand predictor return, let \<open>s\<close> be the finger state
  before note \<open>i\<close> and \<open>s'\<close> the state after it, and let \<open>fg\<close> be the finger of output note
  \<open>i\<close>. Slot \<open>fg - 1\<close> holds the note's pitch and, before ageing, the time
  \<open>-(durationMs / 1000)\<close>, where \<open>durationMs\<close> is 100 for a note without duration; every
  other slot keeps its pitch and time. If note \<open>i\<close> is not the last note of the hand, the
  gap to the next note divided by 1000 is then added to the time of every slot that is not
  \<open>Infinity\<close>; after the last note nothing is added.
\<close>

theorem finger_state_update:
  assumes "predictHandFingerings notes isLeft model = Some rs"
    and "i < length rs" and "f < 5"
  shows "\<exists>s s' fg.
      handLoop model (sortedHand notes isLeft) i = Some s \<and>
      handLoop model (sortedHand notes isLeft) (Suc i) = Some s' \<and>
      finger (rs ! i) = Some fg \<and>
      fingerLastMidi s' ! f =
        (if real f = fg - 1 then note (sortedHand notes isLeft ! i) else fingerLastMidi s ! f) \<and>
      fingerLastTime s' ! f =
        (let durationMs = (case duration (sortedHand notes isLeft ! i) of None \<Rightarrow> 100 | Some d \<Rightarrow> d);
             updated = (if real f = fg - 1 then Secs (- (durationMs / 1000)) else fingerLastTime s ! f);
             gap = time (sortedHand notes isLeft ! Suc i) - time (sortedHand notes isLeft ! i)
         in if Suc i < length rs
            then (case updated of Infinity \<Rightarrow> Infinity | Secs t \<Rightarrow> Secs (t + gap / 1000))
            else updated)"
proof -
  let ?srt = "sortedHand notes isLeft"
  have len: "length rs = length ?srt" by (rule predictHand_nth(1) [OF assms(1)])
  from predictHand_Some [OF assms(1)] obtain sN
    where sN: "handLoop model ?srt (length ?srt) = Some sN" and rs: "rs = results sN" by blast
  have "Suc i \<le> length ?srt" using assms(2) len by simp
  from handLoop_prefix [OF sN this] obtain s' where s': "handLoop model ?srt (Suc i) = Some s'" ..
  from s' obtain s logits where s: "handLoop model ?srt i = Some s"
    and lg: "model (tokensAt ?srt i s) = Some logits"
    and upd: "s' = updateState ?srt i s (resolveNote (?srt ! i) (argmax logits))"
    by (rule handLoop_Suc_Some)
  let ?fr = "resolveNote (?srt ! i) (argmax logits)"
  from predictHand_nth(2) [OF assms(1,2)] s lg
  have ri: "rs ! i = snd ?fr" by auto
  have fg: "finger (rs ! i) = Some (fst ?fr)" unfolding ri by (rule resolveNote_finger)
  have l5: "length (fingerLastMidi s) = 5" "length (fingerLastTime s) = 5"
    using handLoop_lengths [OF s] by simp_all
  have m: "fingerLastMidi s' ! f =
        (if real f = fst ?fr - 1 then note (?srt ! i) else fingerLastMidi s ! f)"
    unfolding upd using assms(3) l5 by (simp add: updateState_midi_nth)
  have t: "fingerLastTime s' ! f =
        (let durationMs = (case duration (?srt ! i) of None \<Rightarrow> 100 | Some d \<Rightarrow> d);
             updated = (if real f = fst ?fr - 1 then Secs (- (durationMs / 1000)) else fingerLastTime s ! f);
             gap = time (?srt ! Suc i) - time (?srt ! i)
         in if Suc i < length rs
            then (case updated of Infinity \<Rightarrow> Infinity | Secs t \<Rightarrow> Secs (t + gap / 1000))
            else updated)"
    unfolding upd updateState_time_nth [OF l5(2) assms(3)] len
    by (auto simp: Let_def split: ftime.splits)
  from s s' fg m t show ?thesis by blast
qed

theorem finger_state_update_witness:
  "predictHandFingerings fixedNotes False (createMockSession 0) = Some fixedOut \<and>
   map_option fingerLastTime (handLoop (createMockSession 0) (sortedHand fixedNotes False) (Suc 0)) =
     Some [Infinity, Infinity, Secs 0, Infinity, Infinity] \<and>
   (\<exists>s s' fg.
      handLoop (createMockSession 0) (sortedHand fixedNotes False) 0 = Some s \<and>
      handLoop (createMockSession 0) (sortedHand fixedNotes False) (Suc 0) = Some s' \<and>
      finger (fixedOut ! 0) = Some fg \<and>
      fingerLastMidi s' ! 2 =
        (if real 2 = fg - 1 then note (sortedHand fixedNotes False ! 0) else fingerLastMidi s ! 2))"
proof -
  have h1: "predictHandFingerings fixedNotes False (createMockSession 0) = Some fixedOut"
    by code_simp
  have h2: "0 < length fixedOut" by (simp add: fixedOut_def)
  have h3: "(2::nat) < 5" by simp
  have h4: "map_option fingerLastTime
      (handLoop (createMockSession 0) (sortedHand fixedNotes False) (Suc 0)) =
     Some [Infinity, Infinity, Secs 0, Infinity, Infinity]"
    by code_simp
  from finger_state_update [OF h1 h2 h3] h1 h4 show ?thesis by blast
qed

text \<open>
  Claim C7 (finger selection). When the hand predictor returns and note \<open>i\<close> of the hand
  carries no finger between 1 and 5, the finger of output note \<open>i\<close> is 1 plus \<open>argmax\<close> of
  the scores that the session returned for that note's tokens. On a non-empty score array
  \<open>argmax\<close> is an index of a maximal score, and every score at a lower index is strictly
  smaller: among equal maximal scores the lowest index wins.
\<close>

theorem predicted_finger_argmax:
  assumes "predictHandFingerings notes isLeft model = Some rs"
    and "i < length rs"
    and "\<not> hasFixedFinger (sortedHand notes isLeft ! i)"
  shows "\<exists>s logits.
           handLoop model (sortedHand notes isLeft) i = Some s \<and>
           model (tokensAt (sortedHand notes isLeft) i s) = Some logits \<and>
           finger (rs ! i) = Some (real (argmax logits) + 1) \<and>
           (logits \<noteq> [] \<longrightarrow>
              argmax logits < length logits \<and>
              (\<forall>j<length logits. logits ! j \<le> logits ! argmax logits) \<and>
              (\<forall>j<argmax logits. logits ! j < logits ! argmax logits))"
proof -
  from predictHand_nth(2) [OF assms(1,2)] obtain s logits
    where s: "handLoop model (sortedHand notes isLeft) i = Some s"
      and lg: "model (tokensAt (sortedHand notes isLeft) i s) = Some logits"
      and r: "rs ! i = snd (resolveNote (sortedHand notes isLeft ! i) (argmax logits))"
    by blast
  have "finger (rs ! i) = Some (real (argmax logits) + 1)"
    using assms(3) by (simp add: r resolveNote_free)
  with s lg show ?thesis
    using argmax_props [of logits] by blast
qed

theorem predicted_finger_argmax_witness:
  "predictHandFingerings fixedNotes False tieSession =
     Some [(mkNote False 60 0)\<lparr>finger := Some 3\<rparr>, (mkNote False 62 500)\<lparr>finger := Some 2\<rparr>,
           (mkNote False 64 1000)\<lparr>finger := Some 5\<rparr>] \<and>
   \<not> hasFixedFinger (sortedHand fixedNotes False ! 1) \<and>
   argmax [0, 3, 3, 1, 3] = 1 \<and>
   (\<exists>s logits.
      handLoop tieSession (sortedHand fixedNotes False) 1 = Some s \<and>
      tieSession (tokensAt (sortedHand fixedNotes False) 1 s) = Some logits \<and>
      finger ([(mkNote False 60 0)\<lparr>finger := Some 3\<rparr>, (mkNote False 62 500)\<lparr>finger := Some 2\<rparr>,
               (mkNote False 64 1000)\<lparr>finger := Some 5\<rparr>] ! 1) = Some (real (argmax logits) + 1))"
proof -
  have h1: "predictHandFingerings fixedNotes False tieSession =
     Some [(mkNote False 60 0)\<lparr>finger := Some 3\<rparr>, (mkNote False 62 500)\<lparr>finger := Some 2\<rparr>,
           (mkNote False 64 1000)\<lparr>finger := Some 5\<rparr>]"
    by code_simp
  have h2: "1 < length [(mkNote False 60 0)\<lparr>finger := Some 3\<rparr>, (mkNote False 62 500)\<lparr>finger := Some 2\<rparr>,
           (mkNote False 64 1000)\<lparr>finger := Some 5\<rparr>]"
    by simp
  have h3: "\<not> hasFixedFinger (sortedHand fixedNotes False ! 1)"
    by code_simp
  have h4: "argmax [0, 3, 3, 1, 3] = 1"
    by code_simp
  from predicted_finger_argmax [OF h1 h2 h3] h1 h3 h4 show ?thesis by blast
qed

text \<open>
  Claim C8 (hand independence). Running the right hand before the left hand, as the demo's
  runner does, gives the same result as \<open>predictFingerings\<close>, which runs the left hand
  first: the same sorted list when both hands succeed, and a failure when either fails.
  Over the store, where the second run starts from the store that the first run has
  extended, the two orders allocate the new records at different addresses and return
  the same records in the same order.
\<close>

theorem hand_order_irrelevant:
  "runHandsRightFirst notes m = predictFingerings notes m \<and>
   ((\<forall>a\<in>set refs. a < length h) \<longrightarrow>
      returned (runHandsRightFirst_h h refs m) = returned (predictFingerings_h h refs m))"
  by (simp add: runHandsRightFirst_eq returned_predictFingerings_h returned_runHandsRightFirst_h)

theorem hand_order_irrelevant_witness:
  "0 < length storeTwo \<and> 1 < length storeTwo \<and>
   runHandsRightFirst scrambled mocks = Some scrambledOut \<and>
   fst (the (runHandsRightFirst_h storeTwo [0, 1] mocks)) \<noteq>
     fst (the (predictFingerings_h storeTwo [0, 1] mocks)) \<and>
   returned (runHandsRightFirst_h storeTwo [0, 1] mocks) =
     returned (predictFingerings_h storeTwo [0, 1] mocks)"
proof -
  have h1: "\<forall>a\<in>set [0, 1]. a < length storeTwo" by (simp add: storeTwo_def)
  have h2: "predictFingerings scrambled mocks = Some scrambledOut" by code_simp
  have h3: "fst (the (runHandsRightFirst_h storeTwo [0, 1] mocks)) \<noteq>
     fst (the (predictFingerings_h storeTwo [0, 1] mocks))"
    by code_simp
  have h4: "0 < length storeTwo \<and> 1 < length storeTwo" by (simp add: storeTwo_def)
  from hand_order_irrelevant [of scrambled mocks "[0, 1]" storeTwo] h1
  have "runHandsRightFirst scrambled mocks = predictFingerings scrambled mocks"
    and "returned (runHandsRightFirst_h storeTwo [0, 1] mocks) =
         returned (predictFingerings_h storeTwo [0, 1] mocks)"
    by blast+
  with h2 h3 h4 show ?thesis by (simp only: simp_thms)
qed

text \<open>
  Claim C9 (no mutation of the caller's notes). Let every address of the input array be an
  address of the store. When \<open>predictHandFingerings\<close> or \<open>predictFingerings\<close> returns, every
  record that was in the store before the call is unchanged; every returned address is
  the address of a record allocated during the call, and no address is returned twice;
  the returned records, read from the final store, are the output of the function over
  values; and each returned record agrees with its input note on \<open>left\<close>, \<open>note\<close>,
  \<open>time\<close>, \<open>duration\<close> and \<open>velocity\<close> and has a finger.
\<close>

theorem inputs_not_mutated:
  assumes "\<forall>a\<in>set notes. a < length h"
  shows "(predictHandFingerings_h h notes isLeft model = Some (h', rs) \<longrightarrow>
            take (length h) h' = h \<and> rs = [length h..<length h'] \<and>
            predictHandFingerings (deref h notes) isLeft model = Some (deref h' rs) \<and>
            list_all2 (\<lambda>n r. sameButFinger n (h' ! r) \<and> finger (h' ! r) \<noteq> None)
              (sortedHand (deref h notes) isLeft) rs) \<and>
         (predictFingerings_h h notes m = Some (h'', out) \<longrightarrow>
            take (length h) h'' = h \<and> distinct out \<and>
            (\<forall>r\<in>set out. length h \<le> r \<and> r < length h'') \<and>
            predictFingerings (deref h notes) m = Some (deref h'' out) \<and>
            list_all2 (\<lambda>n r. sameButFinger n (h'' ! r) \<and> finger (h'' ! r) \<noteq> None)
              (js_sort byTimeThenNote
                 (sortedHand (deref h notes) True @ sortedHand (deref h notes) False)) out)"
proof (intro conjI impI)
  assume A: "predictHandFingerings_h h notes isLeft model = Some (h', rs)"
  note a = predictHand_h_Some [OF assms A]
  show "take (length h) h' = h" by (rule a(2))
  show "rs = [length h..<length h']" by (rule a(4))
  show "predictHandFingerings (deref h notes) isLeft model = Some (deref h' rs)" by (rule a(1))
  from predictHand_all2 [OF a(1)]
  have "list_all2 (\<lambda>n r. resolvedFrom n (h' ! r)) (sortedHand (deref h notes) isLeft) rs"
    by (simp add: deref_def list_all2_map2)
  then show "list_all2 (\<lambda>n r. sameButFinger n (h' ! r) \<and> finger (h' ! r) \<noteq> None)
              (sortedHand (deref h notes) isLeft) rs"
    by (rule list_all2_mono) (simp add: resolvedFrom_def)
next
  assume B: "predictFingerings_h h notes m = Some (h'', out)"
  from predictFingerings_h_sim [OF assms, of m] B
  have p: "predictFingerings (deref h notes) m = Some (deref h'' out)"
    and t: "take (length h) h'' = h"
    and ms: "mset out = mset [length h..<length h'']"
    by simp_all
  show "take (length h) h'' = h" by (rule t)
  show "predictFingerings (deref h notes) m = Some (deref h'' out)" by (rule p)
  from ms have "distinct out = distinct [length h..<length h'']"
    by (rule mset_eq_imp_distinct_iff)
  then show "distinct out" by simp
  from ms have "set out = set [length h..<length h'']" by (rule mset_eq_setD)
  then show "\<forall>r\<in>set out. length h \<le> r \<and> r < length h''" by simp
  from predictFingerings_all2 [OF p]
  have "list_all2 (\<lambda>n r. resolvedFrom n (h'' ! r))
          (js_sort byTimeThenNote
             (sortedHand (deref h notes) True @ sortedHand (deref h notes) False)) out"
    by (simp add: deref_def list_all2_map2)
  then show "list_all2 (\<lambda>n r. sameButFinger n (h'' ! r) \<and> finger (h'' ! r) \<noteq> None)
              (js_sort byTimeThenNote
                 (sortedHand (deref h notes) True @ sortedHand (deref h notes) False)) out"
    by (rule list_all2_mono) (simp add: resolvedFrom_def)
qed

theorem inputs_not_mutated_witness:
  "0 < length storeTwo \<and> 1 < length storeTwo \<and>
   predictFingerings_h storeTwo [0, 1] mocks = Some (storeTwoAfter, [2, 3]) \<and>
   predictHandFingerings_h storeTwo [0, 1] False (createMockSession 2) =
     Some (storeTwo @ [(mkNote False 62 500)\<lparr>finger := Some 3\<rparr>], [2]) \<and>
   take (length storeTwo) storeTwoAfter = storeTwo \<and>
   take (length storeTwo) (storeTwo @ [(mkNote False 62 500)\<lparr>finger := Some 3\<rparr>]) = storeTwo \<and>
   distinct [2, 3 :: nat] \<and>
   predictFingerings (deref storeTwo [0, 1]) mocks = Some (deref storeTwoAfter [2, 3])"
proof -
  have h1: "\<forall>a\<in>set [0, 1]. a < length storeTwo" by (simp add: storeTwo_def)
  have h2: "predictFingerings_h storeTwo [0, 1] mocks = Some (storeTwoAfter, [2, 3])"
    by code_simp
  have h3: "predictHandFingerings_h storeTwo [0, 1] False (createMockSession 2) =
     Some (storeTwo @ [(mkNote False 62 500)\<lparr>finger := Some 3\<rparr>], [2])"
    by code_simp
  from inputs_not_mutated [OF h1, of False "createMockSession 2"
      "storeTwo @ [(mkNote False 62 500)\<lparr>finger := Some 3\<rparr>]" "[2]" mocks storeTwoAfter "[2, 3]"]
    h2 h3
  have "take (length storeTwo) storeTwoAfter = storeTwo"
    and "take (length storeTwo) (storeTwo @ [(mkNote False 62 500)\<lparr>finger := Some 3\<rparr>]) = storeTwo"
    and "distinct [2, 3 :: nat]"
    and "predictFingerings (deref storeTwo [0, 1]) mocks = Some (deref storeTwoAfter [2, 3])"
    by blast+
  moreover have "0 < length storeTwo \<and> 1 < length storeTwo" by (simp add: storeTwo_def)
  ultimately show ?thesis using h2 h3 by (simp only: simp_thms)
qed

text \<open>
  Claim C10 (no integrality check). When the hand predictor returns and note \<open>i\<close> of the
  hand carries a finger \<open>f\<close> with \<open>1 \<le> f \<le> 5\<close>, where \<open>f\<close> is any real number, output note
  \<open>i\<close> has the finger \<open>f\<close> and is the input note unchanged; whatever index the scan of the
  scores yields, the resolution of that note returns \<open>f\<close> and the unchanged record.
\<close>

theorem fractional_fixed_finger:
  assumes "predictHandFingerings notes isLeft model = Some rs"
    and "i < length rs"
    and "finger (sortedHand notes isLeft ! i) = Some f"
    and "1 \<le> f" and "f \<le> 5"
  shows "finger (rs ! i) = Some f \<and> rs ! i = sortedHand notes isLeft ! i \<and>
         (\<forall>pred. resolveNote (sortedHand notes isLeft ! i) pred = (f, sortedHand notes isLeft ! i))"
proof -
  have fx: "hasFixedFinger (sortedHand notes isLeft ! i)"
    using assms(3-5) by (simp add: hasFixedFinger_def)
  from predictHand_nth(2) [OF assms(1,2)] obtain logits
    where "rs ! i = snd (resolveNote (sortedHand notes isLeft ! i) (argmax logits))"
    by blast
  then have "rs ! i = sortedHand notes isLeft ! i"
    by (simp add: resolveNote_fixed [OF fx])
  then show ?thesis using assms(3) by (simp add: resolveNote_fixed [OF fx])
qed

theorem fractional_fixed_finger_witness:
  "predictHandFingerings halfFingerNotes False (createMockSession 0) =
     Some [(mkNote False 60 0)\<lparr>finger := Some (5 / 2)\<rparr>, (mkNote False 62 500)\<lparr>finger := Some 1\<rparr>] \<and>
   finger (sortedHand halfFingerNotes False ! 0) = Some (5 / 2) \<and>
   finger ([(mkNote False 60 0)\<lparr>finger := Some (5 / 2)\<rparr>, (mkNote False 62 500)\<lparr>finger := Some 1\<rparr>] ! 0)
     = Some (5 / 2)"
proof -
  have h1: "predictHandFingerings halfFingerNotes False (createMockSession 0) =
     Some [(mkNote False 60 0)\<lparr>finger := Some (5 / 2)\<rparr>, (mkNote False 62 500)\<lparr>finger := Some 1\<rparr>]"
    by code_simp
  have h2: "0 < length [(mkNote False 60 0)\<lparr>finger := Some (5 / 2)\<rparr>,
       (mkNote False 62 500)\<lparr>finger := Some 1\<rparr>]"
    by simp
  have h3: "finger (sortedHand halfFingerNotes False ! 0) = Some (5 / 2)"
    by code_simp
  have h4: "(1::real) \<le> 5 / 2" and h5: "(5 / 2 :: real) \<le> 5" by simp_all
  from fractional_fixed_finger [OF h1 h2 h3 h4 h5] h1 h3 show ?thesis by blast
qed

end
